theory Spec2Isabelle
  imports Complex_Main
begin

section \<open>Numbers\<close>

text \<open>
  A JavaScript number that is not \<open>NaN\<close> is a score: a real number or one of the two
  infinities, ordered as JavaScript orders them. Rounding is not modelled (a sum is the real
  sum), and counters such as \<open>turnNumber\<close> and \<open>visits\<close> are natural numbers (the loss
  of precision above \<open>2^53\<close> is not modelled).
\<close>

datatype score = NegInf | Fin real | PosInf

fun score_le :: "score \<Rightarrow> score \<Rightarrow> bool" where
  "score_le NegInf _ = True"
| "score_le _ PosInf = True"
| "score_le (Fin x) (Fin y) = (x \<le> y)"
| "score_le _ _ = False"

instantiation score :: linorder
begin

definition less_eq_score :: "score \<Rightarrow> score \<Rightarrow> bool" where
  "less_eq_score a b = score_le a b"

definition less_score :: "score \<Rightarrow> score \<Rightarrow> bool" where
  "less_score a b = (score_le a b \<and> \<not> score_le b a)"

instance
proof
  fix x y z :: score
  show "(x < y) = (x \<le> y \<and> \<not> y \<le> x)"
    by (simp add: less_eq_score_def less_score_def)
  show "x \<le> x"
    by (cases x) (simp_all add: less_eq_score_def)
  show "x \<le> y \<Longrightarrow> y \<le> z \<Longrightarrow> x \<le> z"
    by (cases x; cases y; cases z) (simp_all add: less_eq_score_def)
  show "x \<le> y \<Longrightarrow> y \<le> x \<Longrightarrow> x = y"
    by (cases x; cases y) (simp_all add: less_eq_score_def)
  show "x \<le> y \<or> y \<le> x"
    by (cases x; cases y) (auto simp add: less_eq_score_def)
qed

end

text \<open>\<open>value + noise\<close> for a finite noise term: an infinity stays what it is.\<close>

fun score_add :: "score \<Rightarrow> real \<Rightarrow> score" where
  "score_add (Fin v) n = Fin (v + n)"
| "score_add NegInf n = NegInf"
| "score_add PosInf n = PosInf"

text \<open>
  A JavaScript number: \<open>None\<close> is \<open>NaN\<close>. \<open>Math.max\<close> and \<open>Math.min\<close> return
  \<open>NaN\<close> as soon as an argument is \<open>NaN\<close>; the comparisons \<open><=\<close> and \<open>>\<close> are
  false as soon as an operand is \<open>NaN\<close>; a sum with \<open>NaN\<close> is \<open>NaN\<close>.
\<close>

type_synonym number = "score option"

definition js_max :: "number \<Rightarrow> number \<Rightarrow> number" where
  "js_max a b = (case a of None \<Rightarrow> None
                 | Some x \<Rightarrow> (case b of None \<Rightarrow> None | Some y \<Rightarrow> Some (max x y)))"

definition js_min :: "number \<Rightarrow> number \<Rightarrow> number" where
  "js_min a b = (case a of None \<Rightarrow> None
                 | Some x \<Rightarrow> (case b of None \<Rightarrow> None | Some y \<Rightarrow> Some (min x y)))"

definition js_le :: "number \<Rightarrow> number \<Rightarrow> bool" where
  "js_le a b = (case a of None \<Rightarrow> False
                | Some x \<Rightarrow> (case b of None \<Rightarrow> False | Some y \<Rightarrow> x \<le> y))"

definition js_gt :: "number \<Rightarrow> number \<Rightarrow> bool" where
  "js_gt a b = (case a of None \<Rightarrow> False
                | Some x \<Rightarrow> (case b of None \<Rightarrow> False | Some y \<Rightarrow> y < x))"

definition js_add :: "number \<Rightarrow> real \<Rightarrow> number" where
  "js_add v n = map_option (\<lambda>x. score_add x n) v"

text \<open>
  \<open>Math.random()\<close> returns a number in the half-open interval from 0 to 1. A source of
  randomness is the sequence of its successive results.
\<close>

typedef draw = "{r :: real. 0 \<le> r \<and> r < 1}"
  by (rule exI [of _ 0]) simp

setup_lifting type_definition_draw

lift_definition draw_of :: "real \<Rightarrow> draw" is "\<lambda>r. if 0 \<le> r \<and> r < 1 then r else 0"
  by simp

type_synonym random_source = "nat \<Rightarrow> draw"

section \<open>Game data (core/interfaces/IGame.ts)\<close>

datatype PlayerType = HUMAN | AI

record IPlayer =
  player_id :: string
  player_name :: string
  player_type :: PlayerType

record ITurnInfo =
  turnNumber :: nat
  currentPlayerId :: string
  movesThisTurn :: nat
  maxMovesPerTurn :: "nat option"
  timeStarted :: nat

datatype GamePhase = NOT_STARTED | SETUP | PLAYING | PAUSED | COMPLETED

record 'g IGameState =
  gameData :: 'g
  turnInfo :: ITurnInfo
  players :: "IPlayer list"
  phase :: GamePhase
  isComplete :: bool
  winnerId :: "string option"

section \<open>The shared AI policy (ai/BaseAI.ts)\<close>

datatype AILevel = EASY | MEDIUM | HARD | EXPERT

text \<open>
  An AI object is a record of its fields and of the abstract methods its game-specific
  subclass supplies. \<open>async\<close> records only whether a timer capability was injected.
\<close>

record 'g BaseAI =
  playerId :: string
  difficulty :: AILevel
  async :: bool
  evaluateState :: "'g IGameState \<Rightarrow> number"

fun getDifficultyNoiseFactor :: "AILevel \<Rightarrow> real" where
  "getDifficultyNoiseFactor EASY = 2.0"
| "getDifficultyNoiseFactor MEDIUM = 1.0"
| "getDifficultyNoiseFactor HARD = 0.5"
| "getDifficultyNoiseFactor EXPERT = 0.2"

text \<open>\<open>addNoise\<close>, given the result of its one call of \<open>Math.random()\<close>.\<close>

definition noise_term :: "AILevel \<Rightarrow> real \<Rightarrow> draw \<Rightarrow> real" where
  "noise_term level maxNoise r =
     (Rep_draw r - 0.5) * maxNoise * getDifficultyNoiseFactor level"

definition addNoise :: "AILevel \<Rightarrow> number \<Rightarrow> real \<Rightarrow> draw \<Rightarrow> number" where
  "addNoise level v maxNoise r = js_add v (noise_term level maxNoise r)"

text \<open>
  \<open>simulateThinking\<close> draws one random number for the delay when a timer was injected
  and none otherwise; the result is the number of draws it used.
\<close>

definition simulateThinking :: "bool \<Rightarrow> nat" where
  "simulateThinking has_async = (if has_async then 1 else 0)"

text \<open>\<open>getOpponentIds(state)[0]\<close>: \<open>None\<close> is JavaScript's \<open>undefined\<close>.\<close>

definition getOpponentIds :: "string \<Rightarrow> 'g IGameState \<Rightarrow> string list" where
  "getOpponentIds me st = map player_id (filter (\<lambda>p. player_id p \<noteq> me) (players st))"

definition first_id :: "string list \<Rightarrow> string option" where
  "first_id ids = (case ids of [] \<Rightarrow> None | x # _ \<Rightarrow> Some x)"

text \<open>
  \<open>evaluatedActions.sort((a, b) => b.value - a.value)\<close> followed by \<open>[0]\<close>. The sort
  is stable, and the comparator puts \<open>b\<close> before \<open>a\<close> exactly when \<open>b.value\<close> is
  greater (its result is \<open>NaN\<close>, which the sort reads as 0, when the values are equal
  infinities or one is \<open>NaN\<close>), so the sort is the stable insertion of each element before
  the first one that is not greater. With \<open>NaN\<close> among more than two values the comparator
  is not a consistent order and the language leaves the result to the implementation; the
  insertion is then one admissible result.
\<close>

fun insert_desc :: "('a \<times> number) \<Rightarrow> ('a \<times> number) list \<Rightarrow> ('a \<times> number) list" where
  "insert_desc x [] = [x]"
| "insert_desc x (y # ys) =
     (if js_gt (snd y) (snd x) then y # insert_desc x ys else x # y # ys)"

definition sort_desc :: "('a \<times> number) list \<Rightarrow> ('a \<times> number) list" where
  "sort_desc xs = foldr insert_desc xs []"

definition best_action :: "('a \<times> number) list \<Rightarrow> 'a option" where
  "best_action evaluated = (case sort_desc evaluated of [] \<Rightarrow> None | e # _ \<Rightarrow> Some (fst e))"

section \<open>Minimax with alpha-beta pruning (ai/MinimaxAI.ts)\<close>

record ('g, 'a) SearchAI = "'g BaseAI" +
  simulateAction :: "'a \<Rightarrow> 'g IGameState \<Rightarrow> 'g IGameState"
  getActionsForState :: "'g IGameState \<Rightarrow> string option \<Rightarrow> 'a list"
  isTerminalState :: "'g IGameState \<Rightarrow> bool"

record ('g, 'a) MinimaxAI = "('g, 'a) SearchAI" +
  maxDepth :: nat

record IAIConfig =
  cfg_playerId :: string
  cfg_difficulty :: AILevel
  cfg_async :: bool
  cfg_maxDepth :: "nat option"

fun getDepthByDifficulty :: "AILevel \<Rightarrow> nat" where
  "getDepthByDifficulty EASY = 1"
| "getDepthByDifficulty MEDIUM = 2"
| "getDepthByDifficulty HARD = 3"
| "getDepthByDifficulty EXPERT = 4"

text \<open>
  The constructor: \<open>config.maxDepth || this.getDepthByDifficulty(config.difficulty)\<close>.
  The left operand is taken when it is truthy, that is present and not 0.
\<close>

definition MinimaxAI_new ::
  "IAIConfig \<Rightarrow> ('g IGameState \<Rightarrow> number) \<Rightarrow> ('a \<Rightarrow> 'g IGameState \<Rightarrow> 'g IGameState) \<Rightarrow>
   ('g IGameState \<Rightarrow> string option \<Rightarrow> 'a list) \<Rightarrow> ('g IGameState \<Rightarrow> bool) \<Rightarrow> ('g, 'a) MinimaxAI" where
  "MinimaxAI_new config ev sim acts term =
     \<lparr> playerId = cfg_playerId config,
       difficulty = cfg_difficulty config,
       async = cfg_async config,
       evaluateState = ev,
       simulateAction = sim,
       getActionsForState = acts,
       isTerminalState = term,
       maxDepth = (case cfg_maxDepth config of
                     None \<Rightarrow> getDepthByDifficulty (cfg_difficulty config)
                   | Some d \<Rightarrow> if d = 0 then getDepthByDifficulty (cfg_difficulty config) else d) \<rparr>"

text \<open>
  \<open>minimax\<close>. The depth counts plies and is a natural number. The \<open>for\<close> statement of
  each branch is \<open>max_loop\<close> or \<open>min_loop\<close>: it runs over the remaining actions with the running
  \<open>maxEval\<close> (\<open>minEval\<close>), \<open>alpha\<close> and \<open>beta\<close>, at the depth \<open>depth - 1\<close> of the
  recursive calls, and \<open>break\<close> is the branch that returns without the rest.
\<close>

fun minimax :: "('g, 'a) MinimaxAI \<Rightarrow> 'g IGameState \<Rightarrow> nat \<Rightarrow> number \<Rightarrow> number \<Rightarrow> bool \<Rightarrow> number"
  and max_loop :: "('g, 'a) MinimaxAI \<Rightarrow> 'g IGameState \<Rightarrow> nat \<Rightarrow> 'a list \<Rightarrow> number \<Rightarrow> number \<Rightarrow> number \<Rightarrow> number"
  and min_loop :: "('g, 'a) MinimaxAI \<Rightarrow> 'g IGameState \<Rightarrow> nat \<Rightarrow> 'a list \<Rightarrow> number \<Rightarrow> number \<Rightarrow> number \<Rightarrow> number"
  where
  "minimax ai st 0 alpha beta maximizingPlayer = evaluateState ai st"
| "minimax ai st (Suc d) alpha beta maximizingPlayer =
     (if isTerminalState ai st then evaluateState ai st
      else
        let currentPlayerId = (if maximizingPlayer then Some (playerId ai)
                               else first_id (getOpponentIds (playerId ai) st));
            actions = getActionsForState ai st currentPlayerId
        in if maximizingPlayer then max_loop ai st d actions (Some NegInf) alpha beta
           else min_loop ai st d actions (Some PosInf) alpha beta)"
| "max_loop ai st d [] maxEval alpha beta = maxEval"
| "max_loop ai st d (action # rest) maxEval alpha beta =
     (let newState = simulateAction ai action st;
          evalValue = minimax ai newState d alpha beta False;
          maxEval' = js_max maxEval evalValue;
          alpha' = js_max alpha evalValue
      in if js_le beta alpha' then maxEval'
         else max_loop ai st d rest maxEval' alpha' beta)"
| "min_loop ai st d [] minEval alpha beta = minEval"
| "min_loop ai st d (action # rest) minEval alpha beta =
     (let newState = simulateAction ai action st;
          evalValue = minimax ai newState d alpha beta True;
          minEval' = js_min minEval evalValue;
          beta' = js_min beta evalValue
      in if js_le beta' alpha then minEval'
         else min_loop ai st d rest minEval' alpha beta')"

text \<open>
  \<open>chooseAction\<close>: the thinking delay, then one minimax search and one noise draw per
  available action, in order, then the sort. The constructor makes \<open>maxDepth\<close> at least 1,
  so \<open>maxDepth - 1\<close> is a natural number.
\<close>

definition MinimaxAI_evaluate ::
  "('g, 'a) MinimaxAI \<Rightarrow> random_source \<Rightarrow> 'g IGameState \<Rightarrow> 'a list \<Rightarrow> ('a \<times> number) list" where
  "MinimaxAI_evaluate ai rnd st availableActions =
     map (\<lambda>(i, action).
            let newState = simulateAction ai action st;
                v = minimax ai newState (maxDepth ai - 1) (Some NegInf) (Some PosInf) False
            in (action, addNoise (difficulty ai) v 10 (rnd i)))
         (enumerate (simulateThinking (async ai)) availableActions)"

definition MinimaxAI_chooseAction ::
  "('g, 'a) MinimaxAI \<Rightarrow> random_source \<Rightarrow> 'g IGameState \<Rightarrow> 'a list \<Rightarrow> 'a option" where
  "MinimaxAI_chooseAction ai rnd st availableActions =
     (if availableActions = [] then None
      else best_action (MinimaxAI_evaluate ai rnd st availableActions))"

text \<open>
  The reference for the pruning: minimax of the same depth bound, terminal test, player
  choice and sentinels, searching every action of every ply (no \<open>break\<close>).
\<close>

fun minimax_unpruned :: "('g, 'a) MinimaxAI \<Rightarrow> 'g IGameState \<Rightarrow> nat \<Rightarrow> bool \<Rightarrow> number" where
  "minimax_unpruned ai st 0 maximizingPlayer = evaluateState ai st"
| "minimax_unpruned ai st (Suc d) maximizingPlayer =
     (if isTerminalState ai st then evaluateState ai st
      else
        let currentPlayerId = (if maximizingPlayer then Some (playerId ai)
                               else first_id (getOpponentIds (playerId ai) st));
            actions = getActionsForState ai st currentPlayerId
        in if maximizingPlayer
           then fold (\<lambda>action maxEval.
                        js_max maxEval (minimax_unpruned ai (simulateAction ai action st) d False))
                     actions (Some NegInf)
           else fold (\<lambda>action minEval.
                        js_min minEval (minimax_unpruned ai (simulateAction ai action st) d True))
                     actions (Some PosInf))"

definition unpruned_evaluate ::
  "('g, 'a) MinimaxAI \<Rightarrow> random_source \<Rightarrow> 'g IGameState \<Rightarrow> 'a list \<Rightarrow> ('a \<times> number) list" where
  "unpruned_evaluate ai rnd st availableActions =
     map (\<lambda>(i, action).
            let newState = simulateAction ai action st;
                v = minimax_unpruned ai newState (maxDepth ai - 1) False
            in (action, addNoise (difficulty ai) v 10 (rnd i)))
         (enumerate (simulateThinking (async ai)) availableActions)"

definition unpruned_chooseAction ::
  "('g, 'a) MinimaxAI \<Rightarrow> random_source \<Rightarrow> 'g IGameState \<Rightarrow> 'a list \<Rightarrow> 'a option" where
  "unpruned_chooseAction ai rnd st availableActions =
     (if availableActions = [] then None
      else best_action (unpruned_evaluate ai rnd st availableActions))"

text \<open>
  What a search with the window from \<open>a\<close> to \<open>b\<close> promises about the true value \<open>v\<close>
  when it returns \<open>r\<close>: a result at or below the window bounds the value from above, a
  result inside the window is the value, a result at or above the window bounds it from below.
\<close>

definition window_sound :: "score \<Rightarrow> score \<Rightarrow> score \<Rightarrow> score \<Rightarrow> bool" where
  "window_sound a b v r = ((r \<le> a \<longrightarrow> v \<le> r) \<and> (a < r \<and> r < b \<longrightarrow> r = v) \<and> (b \<le> r \<longrightarrow> r \<le> v))"

text \<open>A position with no move that is not terminal, for an AI that values it at 7.\<close>

definition stuck_state :: "nat IGameState" where
  "stuck_state =
     \<lparr> gameData = 0,
       turnInfo = \<lparr> turnNumber = 1, currentPlayerId = ''p1'', movesThisTurn = 0,
                    maxMovesPerTurn = None, timeStarted = 0 \<rparr>,
       players = [\<lparr> player_id = ''p1'', player_name = ''A'', player_type = AI \<rparr>,
                  \<lparr> player_id = ''p2'', player_name = ''B'', player_type = HUMAN \<rparr>],
       phase = PLAYING, isComplete = False, winnerId = None \<rparr>"

definition stuck_ai :: "(nat, nat) MinimaxAI" where
  "stuck_ai =
     \<lparr> playerId = ''p1'', difficulty = HARD, async = False,
       evaluateState = (\<lambda>_. Some (Fin 7)),
       simulateAction = (\<lambda>_ st. st),
       getActionsForState = (\<lambda>_ _. []),
       isTerminalState = (\<lambda>_. False),
       maxDepth = 3 \<rparr>"

text \<open>
  A game on numbered positions for a search of depth 3: position \<open>n\<close> has the two moves to
  \<open>2n\<close> and \<open>2n + 1\<close>, position 3 is terminal and worth 4, position 10 is worth 5 and
  every other position 3, except position 11, whose value is the parameter: \<open>NaN\<close> in
  \<open>nan_leaf_ai\<close> and 9 in \<open>plain_leaf_ai\<close>. From position 1 the search cuts position 11.
\<close>

definition position :: "nat \<Rightarrow> nat IGameState" where
  "position n = stuck_state\<lparr>gameData := n\<rparr>"

definition leaf_ai :: "number \<Rightarrow> (nat, nat) MinimaxAI" where
  "leaf_ai v11 =
     \<lparr> playerId = ''p1'', difficulty = HARD, async = False,
       evaluateState = (\<lambda>st. if gameData st = 11 then v11
                             else if gameData st = 10 then Some (Fin 5)
                             else if gameData st = 3 then Some (Fin 4)
                             else Some (Fin 3)),
       simulateAction = (\<lambda>a st. st\<lparr>gameData := 2 * gameData st + a\<rparr>),
       getActionsForState = (\<lambda>_ _. [0, 1]),
       isTerminalState = (\<lambda>st. gameData st = 3),
       maxDepth = 3 \<rparr>"

definition nan_leaf_ai :: "(nat, nat) MinimaxAI" where
  "nan_leaf_ai = leaf_ai None"

definition plain_leaf_ai :: "(nat, nat) MinimaxAI" where
  "plain_leaf_ai = leaf_ai (Some (Fin 9))"

definition half_draws :: random_source where
  "half_draws i = draw_of (1/2)"

section \<open>Greedy search (ai/GreedyAI.ts)\<close>







section \<open>State history (core/GameStateManager.ts)\<close>

text \<open>
  \<open>deepClone\<close> copies a value structurally. Values of the model are immutable, so a copy
  is the value itself.
\<close>

definition deepClone :: "'x \<Rightarrow> 'x" where
  "deepClone x = x"

text \<open>
  The two stacks are arrays: \<open>push\<close> appends at the end, \<open>pop\<close> takes the last element and
  \<open>shift\<close> drops the first. The checkpoint map is separate from the stacks and is left out.
\<close>

record 'g GameStateManager =
  currentState :: "'g IGameState option"
  history :: "'g IGameState list"
  redoStack :: "'g IGameState list"
  maxHistorySize :: nat

definition GameStateManager_new :: "nat \<Rightarrow> 'g GameStateManager" where
  "GameStateManager_new n =
     \<lparr> currentState = None, history = [], redoStack = [], maxHistorySize = n \<rparr>"

definition setState :: "'g IGameState \<Rightarrow> 'g GameStateManager \<Rightarrow> 'g GameStateManager" where
  "setState st m =
     (let pushed = (case currentState m of
                      Some cur \<Rightarrow> history m @ [deepClone cur]
                    | None \<Rightarrow> history m);
          limited = (if length pushed > maxHistorySize m then drop 1 pushed else pushed)
      in m\<lparr> currentState := Some (deepClone st), redoStack := [], history := limited \<rparr>)"

definition getCurrentState :: "'g GameStateManager \<Rightarrow> 'g IGameState option" where
  "getCurrentState m = map_option deepClone (currentState m)"

definition getHistory :: "'g GameStateManager \<Rightarrow> 'g IGameState list" where
  "getHistory m = map deepClone (history m)"

definition canUndo :: "'g GameStateManager \<Rightarrow> bool" where
  "canUndo m = (length (history m) > 0)"

definition undo :: "'g GameStateManager \<Rightarrow> bool \<times> 'g GameStateManager" where
  "undo m =
     (case currentState m of
        None \<Rightarrow> (False, m)
      | Some cur \<Rightarrow>
          if \<not> canUndo m then (False, m)
          else (True, m\<lparr> redoStack := redoStack m @ [deepClone cur],
                         currentState := Some (last (history m)),
                         history := butlast (history m) \<rparr>))"

definition canRedo :: "'g GameStateManager \<Rightarrow> bool" where
  "canRedo m = (length (redoStack m) > 0)"

definition redo :: "'g GameStateManager \<Rightarrow> bool \<times> 'g GameStateManager" where
  "redo m =
     (if \<not> canRedo m then (False, m)
      else
        let pushed = (case currentState m of
                        Some cur \<Rightarrow> history m @ [deepClone cur]
                      | None \<Rightarrow> history m)
        in (True, m\<lparr> history := pushed,
                       currentState := Some (last (redoStack m)),
                       redoStack := butlast (redoStack m) \<rparr>))"

definition reset :: "'g GameStateManager \<Rightarrow> 'g GameStateManager" where
  "reset m = m\<lparr> currentState := None, history := [], redoStack := [] \<rparr>"

text \<open>The operations a caller can apply to a state manager, and a run of them.\<close>

datatype 'g manager_op = SetState "'g IGameState" | Undo | Redo | Reset

fun apply_op :: "'g manager_op \<Rightarrow> 'g GameStateManager \<Rightarrow> 'g GameStateManager" where
  "apply_op (SetState st) m = setState st m"
| "apply_op Undo m = snd (undo m)"
| "apply_op Redo m = snd (redo m)"
| "apply_op Reset m = reset m"

definition run_ops :: "'g manager_op list \<Rightarrow> 'g GameStateManager \<Rightarrow> 'g GameStateManager" where
  "run_ops ops m = fold apply_op ops m"

section \<open>Turn order (core/interfaces/IGameRules.ts, core/TurnManager.ts)\<close>

datatype error =
    GameNotInitialized
  | TurnManagerNotInitialized
  | NoPlayers
  | InvalidNextPlayer "string option"
  | TypeError
  | TooFewPlayers
  | DuplicatePlayerIds
  | NoAIRegistered string

text \<open>\<open>Array.indexOf\<close> and \<open>Array.findIndex\<close>: the first position, or -1.\<close>

fun findIndex :: "('x \<Rightarrow> bool) \<Rightarrow> 'x list \<Rightarrow> int" where
  "findIndex P [] = -1"
| "findIndex P (x # xs) =
     (if P x then 0 else (let r = findIndex P xs in if r = -1 then -1 else r + 1))"

definition indexOf :: "'x list \<Rightarrow> 'x \<Rightarrow> int" where
  "indexOf xs x = findIndex (\<lambda>y. y = x) xs"

text \<open>An array read \<open>xs[i]\<close>: \<open>None\<close> is \<open>undefined\<close>.\<close>

definition at_index :: "'x list \<Rightarrow> int \<Rightarrow> 'x option" where
  "at_index xs i = (if 0 \<le> i \<and> i < int (length xs) then Some (xs ! nat i) else None)"

text \<open>
  A turn-order strategy is its \<open>getNextPlayer\<close>. \<open>sequential\<close> is the default and the only
  one the controller uses (it constructs its \<open>TurnManager\<close> without a strategy and never
  replaces it). On an empty list the index is \<open>NaN\<close> and the read is \<open>undefined\<close>.
\<close>

type_synonym ITurnOrderStrategy = "string \<Rightarrow> string list \<Rightarrow> string option"

definition sequential :: ITurnOrderStrategy where
  "sequential current ids =
     (if ids = [] then None
      else at_index ids ((indexOf ids current + 1) mod int (length ids)))"

record TurnManager =
  tm_players :: "IPlayer list"
  currentPlayerIndex :: int
  turnOrderStrategy :: ITurnOrderStrategy

definition TurnManager_new :: TurnManager where
  "TurnManager_new =
     \<lparr> tm_players = [], currentPlayerIndex = 0, turnOrderStrategy = sequential \<rparr>"

definition TurnManager_initialize :: "IPlayer list \<Rightarrow> TurnManager \<Rightarrow> error + TurnManager" where
  "TurnManager_initialize ps tm =
     (if length ps < 1 then Inl NoPlayers
      else Inr (tm\<lparr> tm_players := ps, currentPlayerIndex := 0 \<rparr>))"

text \<open>
  \<open>getNextPlayer\<close> starts from the manager's own cursor, \<open>players[currentPlayerIndex]\<close>.
  It stores the new index before it checks it, so a throw leaves the index at -1; the
  result is paired with the manager as the call leaves it.
\<close>

definition getNextPlayer :: "TurnManager \<Rightarrow> (error + string) \<times> TurnManager" where
  "getNextPlayer tm =
     (if length (tm_players tm) = 0 then (Inl TurnManagerNotInitialized, tm)
      else
        case at_index (tm_players tm) (currentPlayerIndex tm) of
          None \<Rightarrow> (Inl TypeError, tm)
        | Some cur \<Rightarrow>
            let currentPlayerId = player_id cur;
                playerIds = map player_id (tm_players tm);
                nextPlayerId = turnOrderStrategy tm currentPlayerId playerIds;
                idx = findIndex (\<lambda>p. Some (player_id p) = nextPlayerId) (tm_players tm);
                tm' = tm\<lparr> currentPlayerIndex := idx \<rparr>
            in if idx = -1 then (Inl (InvalidNextPlayer nextPlayerId), tm')
               else case nextPlayerId of
                      Some n \<Rightarrow> (Inr n, tm')
                    | None \<Rightarrow> (Inl (InvalidNextPlayer None), tm'))"

definition TurnManager_reset :: "TurnManager \<Rightarrow> TurnManager" where
  "TurnManager_reset tm = tm\<lparr> tm_players := [], currentPlayerIndex := 0 \<rparr>"

section \<open>The controller (core/GameController.ts)\<close>

record 'a IGameAction =
  action_type :: string
  action_playerId :: string
  action_data :: 'a
  timestamp :: "nat option"

record IActionValidation =
  isValid :: bool
  reason :: "string option"

record ISideEffect =
  effect_type :: string
  description :: string

record 'g IActionResult =
  success :: bool
  newState :: "'g IGameState option"
  result_error :: "string option"
  sideEffects :: "ISideEffect list option"

record IGameConfig =
  config_players :: "IPlayer list"
  seed :: "string option"

record EndCheck =
  isEnded :: bool
  end_winnerId :: "string option"
  end_reason :: "string option"

record ('g, 'a) IGameRules =
  createInitialState :: "IGameConfig \<Rightarrow> 'g IGameState"
  validateAction :: "'a IGameAction \<Rightarrow> 'g IGameState \<Rightarrow> IActionValidation"
  executeAction :: "'a IGameAction \<Rightarrow> 'g IGameState \<Rightarrow> 'g IActionResult"
  getValidActions :: "'g IGameState \<Rightarrow> 'a IGameAction list"
  checkEndCondition :: "'g IGameState \<Rightarrow> EndCheck"

text \<open>The events the controller emits; the event bus is the list of them, oldest first.\<close>

datatype ('g, 'a) game_event =
    GameStarted "'g IGameState" IGameConfig
  | TurnStarted string nat
  | TurnEnded string nat
  | ActionExecuted "'a IGameAction" "'g IActionResult" "'g IGameState"
  | SideEffect ISideEffect
  | GameEnded "string option" "string option" "'g IGameState"
  | GameReset
  | ActionUndone "'g IGameState"
  | ActionRedone "'g IGameState"

record ('g, 'a) GameController =
  rules :: "('g, 'a) IGameRules"
  stateManager :: "'g GameStateManager"
  turnManager :: TurnManager
  emitted :: "('g, 'a) game_event list"
  config :: "IGameConfig option"

definition GameController_new :: "('g, 'a) IGameRules \<Rightarrow> ('g, 'a) GameController" where
  "GameController_new r =
     \<lparr> rules = r, stateManager = GameStateManager_new 100, turnManager = TurnManager_new,
       emitted = [], config = None \<rparr>"

definition emit :: "('g, 'a) game_event \<Rightarrow> ('g, 'a) GameController \<Rightarrow> ('g, 'a) GameController" where
  "emit e c = c\<lparr> emitted := emitted c @ [e] \<rparr>"

definition commit :: "'g IGameState \<Rightarrow> ('g, 'a) GameController \<Rightarrow> ('g, 'a) GameController" where
  "commit st c = c\<lparr> stateManager := setState st (stateManager c) \<rparr>"

definition getState :: "('g, 'a) GameController \<Rightarrow> error + 'g IGameState" where
  "getState c = (case getCurrentState (stateManager c) of
                   None \<Rightarrow> Inl GameNotInitialized
                 | Some st \<Rightarrow> Inr st)"

definition validateConfig :: "IGameConfig \<Rightarrow> error option" where
  "validateConfig cfg =
     (if length (config_players cfg) < 2 then Some TooFewPlayers
      else if card (set (map player_id (config_players cfg))) \<noteq> length (config_players cfg)
           then Some DuplicatePlayerIds
      else None)"

definition initialize ::
  "IGameConfig \<Rightarrow> ('g, 'a) GameController \<Rightarrow> (error + unit) \<times> ('g, 'a) GameController" where
  "initialize cfg c =
     (case validateConfig cfg of
        Some e \<Rightarrow> (Inl e, c)
      | None \<Rightarrow>
          let c1 = c\<lparr> config := Some cfg \<rparr>;
              initialState = createInitialState (rules c) cfg;
              c2 = commit initialState c1
          in case TurnManager_initialize (config_players cfg) (turnManager c2) of
               Inl e \<Rightarrow> (Inl e, c2)
             | Inr tm \<Rightarrow>
                 (Inr (),
                  emit (TurnStarted (currentPlayerId (turnInfo initialState))
                          (turnNumber (turnInfo initialState)))
                    (emit (GameStarted initialState cfg) (c2\<lparr> turnManager := tm \<rparr>))))"

definition handleGameEnd ::
  "string option \<Rightarrow> string option \<Rightarrow> ('g, 'a) GameController \<Rightarrow> (error + unit) \<times> ('g, 'a) GameController" where
  "handleGameEnd winner why c =
     (case getState c of
        Inl e \<Rightarrow> (Inl e, c)
      | Inr st \<Rightarrow>
          let endState = st\<lparr> isComplete := True, winnerId := winner, phase := COMPLETED \<rparr>
          in (Inr (), emit (GameEnded winner why endState) (commit endState c)))"

text \<open>\<open>validation.reason || 'Invalid action'\<close>: an absent or empty reason is falsy.\<close>

definition reason_or_default :: "string option \<Rightarrow> string" where
  "reason_or_default r = (case r of None \<Rightarrow> ''Invalid action''
                          | Some t \<Rightarrow> if t = [] then ''Invalid action'' else t)"

definition GameController_executeAction ::
  "'a IGameAction \<Rightarrow> ('g, 'a) GameController \<Rightarrow> (error + 'g IActionResult) \<times> ('g, 'a) GameController" where
  "GameController_executeAction action c =
     (case getState c of
        Inl e \<Rightarrow> (Inl e, c)
      | Inr cur \<Rightarrow>
          let validation = validateAction (rules c) action cur
          in if \<not> isValid validation
             then (Inr \<lparr> success = False, newState = None,
                         result_error = Some (reason_or_default (reason validation)),
                         sideEffects = None \<rparr>, c)
             else
               let result = executeAction (rules c) action cur
               in case newState result of
                    None \<Rightarrow> (Inr result, c)
                  | Some st \<Rightarrow>
                      if \<not> success result then (Inr result, c)
                      else
                        let c1 = commit st c;
                            c2 = emit (ActionExecuted action result st) c1;
                            c3 = (case sideEffects result of
                                    None \<Rightarrow> c2
                                  | Some effects \<Rightarrow> fold (\<lambda>effect. emit (SideEffect effect)) effects c2);
                            endCheck = checkEndCondition (rules c) st
                        in if isEnded endCheck
                           then (case handleGameEnd (end_winnerId endCheck) (end_reason endCheck) c3 of
                                   (Inl e, c4) \<Rightarrow> (Inl e, c4)
                                 | (Inr _, c4) \<Rightarrow> (Inr result, c4))
                           else (Inr result, c3))"

text \<open>\<open>endTurn\<close>; \<open>now\<close> is the value of \<open>Date.now()\<close>.\<close>

definition endTurn ::
  "nat \<Rightarrow> ('g, 'a) GameController \<Rightarrow> (error + unit) \<times> ('g, 'a) GameController" where
  "endTurn now c =
     (case getState c of
        Inl e \<Rightarrow> (Inl e, c)
      | Inr cur \<Rightarrow>
          if isComplete cur then (Inr (), c)
          else
            let currentPlayer = currentPlayerId (turnInfo cur)
            in case getNextPlayer (turnManager c) of
                 (Inl e, tm) \<Rightarrow> (Inl e, c\<lparr> turnManager := tm \<rparr>)
               | (Inr nextPlayerId, tm) \<Rightarrow>
                   let currentTurnNumber = turnNumber (turnInfo cur);
                       newState = cur\<lparr> turnInfo := (turnInfo cur)
                           \<lparr> currentPlayerId := nextPlayerId,
                             turnNumber := currentTurnNumber + 1,
                             movesThisTurn := 0,
                             timeStarted := now \<rparr> \<rparr>;
                       c1 = commit newState (c\<lparr> turnManager := tm \<rparr>);
                       c2 = emit (TurnEnded currentPlayer currentTurnNumber) c1
                   in (Inr (), emit (TurnStarted nextPlayerId (currentTurnNumber + 1)) c2))"

definition GameController_reset :: "('g, 'a) GameController \<Rightarrow> ('g, 'a) GameController" where
  "GameController_reset c =
     emit GameReset (c\<lparr> stateManager := reset (stateManager c),
                        turnManager := TurnManager_reset (turnManager c),
                        config := None \<rparr>)"

text \<open>
  \<open>undo\<close> and \<open>redo\<close> of the controller: the state manager's, then the event with the
  state \<open>getState()\<close> returns.
\<close>

definition GameController_undo ::
  "('g, 'a) GameController \<Rightarrow> (error + bool) \<times> ('g, 'a) GameController" where
  "GameController_undo c =
     (case undo (stateManager c) of
        (False, m) \<Rightarrow> (Inr False, c\<lparr> stateManager := m \<rparr>)
      | (True, m) \<Rightarrow>
          let c1 = c\<lparr> stateManager := m \<rparr>
          in case getState c1 of
               Inl e \<Rightarrow> (Inl e, c1)
             | Inr st \<Rightarrow> (Inr True, emit (ActionUndone st) c1))"

definition GameController_redo ::
  "('g, 'a) GameController \<Rightarrow> (error + bool) \<times> ('g, 'a) GameController" where
  "GameController_redo c =
     (case redo (stateManager c) of
        (False, m) \<Rightarrow> (Inr False, c\<lparr> stateManager := m \<rparr>)
      | (True, m) \<Rightarrow>
          let c1 = c\<lparr> stateManager := m \<rparr>
          in case getState c1 of
               Inl e \<Rightarrow> (Inl e, c1)
             | Inr st \<Rightarrow> (Inr True, emit (ActionRedone st) c1))"

text \<open>
  A two-player game for examples: the state counts the moves made, a move is valid for the
  player whose turn it is, and the game never ends by itself.
\<close>

definition counter_rules :: "(nat, unit) IGameRules" where
  "counter_rules =
     \<lparr> createInitialState = (\<lambda>cfg.
         \<lparr> gameData = 0,
           turnInfo = \<lparr> turnNumber = 1,
                        currentPlayerId = (case config_players cfg of [] \<Rightarrow> [] | p # _ \<Rightarrow> player_id p),
                        movesThisTurn = 0, maxMovesPerTurn = None, timeStarted = 0 \<rparr>,
           players = config_players cfg,
           phase = PLAYING, isComplete = False, winnerId = None \<rparr>),
       validateAction = (\<lambda>a st.
         if action_playerId a \<noteq> currentPlayerId (turnInfo st)
         then \<lparr> isValid = False, reason = Some ''Not your turn'' \<rparr>
         else \<lparr> isValid = True, reason = None \<rparr>),
       executeAction = (\<lambda>a st.
         \<lparr> success = True, newState = Some (st\<lparr> gameData := gameData st + 1 \<rparr>),
           result_error = None, sideEffects = None \<rparr>),
       getValidActions = (\<lambda>st.
         [\<lparr> action_type = ''move'', action_playerId = currentPlayerId (turnInfo st),
            action_data = (), timestamp = None \<rparr>]),
       checkEndCondition = (\<lambda>st. \<lparr> isEnded = False, end_winnerId = None, end_reason = None \<rparr>) \<rparr>"

definition two_players :: IGameConfig where
  "two_players =
     \<lparr> config_players = [\<lparr> player_id = ''player1'', player_name = ''Alice'', player_type = HUMAN \<rparr>,
                          \<lparr> player_id = ''player2'', player_name = ''Bob'', player_type = HUMAN \<rparr>],
       seed = None \<rparr>"

definition started :: "(nat, unit) GameController" where
  "started = snd (initialize two_players (GameController_new counter_rules))"

text \<open>The first player ends the turn and the turn is undone.\<close>

definition turn_undone :: "(nat, unit) GameController" where
  "turn_undone = snd (GameController_undo (snd (endTurn 5 started)))"

definition current_player :: "('g, 'a) GameController \<Rightarrow> string option" where
  "current_player c = (case getState c of Inl _ \<Rightarrow> None
                       | Inr st \<Rightarrow> Some (currentPlayerId (turnInfo st)))"

definition current_turn :: "('g, 'a) GameController \<Rightarrow> nat option" where
  "current_turn c = (case getState c of Inl _ \<Rightarrow> None
                     | Inr st \<Rightarrow> Some (turnNumber (turnInfo st)))"

definition wrong_turn_move :: "unit IGameAction" where
  "wrong_turn_move =
     \<lparr> action_type = ''move'', action_playerId = ''player2'', action_data = (), timestamp = None \<rparr>"

section \<open>Monte Carlo tree search (ai/MCTSAI.ts)\<close>

text \<open>
  A node owns its children. The \<open>parent\<close> back-reference is the node's position in the
  tree: a node is addressed by the path of child indices that leads to it from the root, and
  its ancestors are the nodes on that path. Playout values are finite numbers, so
  \<open>totalValue\<close> is a real number.
\<close>

datatype ('g, 'a) MCTSNode =
  MCTSNode (state: "'g IGameState") (action: "'a option")
    (children: "('g, 'a) MCTSNode list") (visits: nat) (totalValue: real)

definition isLeaf :: "('g, 'a) MCTSNode \<Rightarrow> bool" where
  "isLeaf node = (length (children node) = 0)"

text \<open>
  \<open>getUCB1Value\<close>. The value is \<open>NaN\<close> for a visited child of a node that has no visit
  itself, \<open>Math.log(0)\<close> is minus infinity and its square root is \<open>NaN\<close>. Otherwise the
  logarithm is not negative and the value is finite.
\<close>

definition getUCB1Value :: "nat \<Rightarrow> ('g, 'a) MCTSNode \<Rightarrow> real \<Rightarrow> number" where
  "getUCB1Value parentVisits child c =
     (if visits child = 0 then Some PosInf
      else if parentVisits = 0 then None
      else
        let exploitation = totalValue child / real (visits child);
            exploration = c * sqrt (ln (real parentVisits) / real (visits child))
        in Some (Fin (exploitation + exploration)))"

text \<open>
  The loop of \<open>getBestChild\<close> over all children, from the first, with the position \<open>i\<close>
  of the child at hand; the best child is kept as its position.
\<close>

fun best_loop ::
  "nat \<Rightarrow> real \<Rightarrow> ('g, 'a) MCTSNode list \<Rightarrow> nat \<Rightarrow> nat \<Rightarrow> number \<Rightarrow> nat" where
  "best_loop parentVisits c [] i bestChild bestValue = bestChild"
| "best_loop parentVisits c (child # rest) i bestChild bestValue =
     (let v = getUCB1Value parentVisits child c
      in if js_gt v bestValue then best_loop parentVisits c rest (Suc i) i v
         else best_loop parentVisits c rest (Suc i) bestChild bestValue)"

definition getBestChildIndex :: "('g, 'a) MCTSNode \<Rightarrow> real \<Rightarrow> nat option" where
  "getBestChildIndex node c =
     (case children node of
        [] \<Rightarrow> None
      | first # _ \<Rightarrow>
          Some (best_loop (visits node) c (children node) 0 0
                  (getUCB1Value (visits node) first c)))"

definition getBestChild :: "('g, 'a) MCTSNode \<Rightarrow> real \<Rightarrow> ('g, 'a) MCTSNode option" where
  "getBestChild node c = map_option (\<lambda>i. children node ! i) (getBestChildIndex node c)"

text \<open>
  \<open>simulatePlayout\<close> may be random: it is given the random source and the number of draws
  used so far, and returns its value with the number of draws used after it.
\<close>

record ('g, 'a) MCTSAI = "('g, 'a) SearchAI" +
  iterations :: nat
  explorationConstant :: real
  simulatePlayout :: "'g IGameState \<Rightarrow> random_source \<Rightarrow> nat \<Rightarrow> real \<times> nat"

fun getIterationsByDifficulty :: "AILevel \<Rightarrow> nat" where
  "getIterationsByDifficulty EASY = 100"
| "getIterationsByDifficulty MEDIUM = 500"
| "getIterationsByDifficulty HARD = 1000"
| "getIterationsByDifficulty EXPERT = 2000"

definition MCTSAI_new ::
  "IAIConfig \<Rightarrow> ('g IGameState \<Rightarrow> number) \<Rightarrow> ('a \<Rightarrow> 'g IGameState \<Rightarrow> 'g IGameState) \<Rightarrow>
   ('g IGameState \<Rightarrow> string option \<Rightarrow> 'a list) \<Rightarrow> ('g IGameState \<Rightarrow> bool) \<Rightarrow>
   ('g IGameState \<Rightarrow> random_source \<Rightarrow> nat \<Rightarrow> real \<times> nat) \<Rightarrow> ('g, 'a) MCTSAI" where
  "MCTSAI_new cfg ev sim acts term playout =
     \<lparr> playerId = cfg_playerId cfg,
       difficulty = cfg_difficulty cfg,
       async = cfg_async cfg,
       evaluateState = ev,
       simulateAction = sim,
       getActionsForState = acts,
       isTerminalState = term,
       iterations = getIterationsByDifficulty (cfg_difficulty cfg),
       explorationConstant = 1.414,
       simulatePlayout = playout \<rparr>"

lemma best_loop_range:
  "best_loop pv c cs i b bv = b \<or> (i \<le> best_loop pv c cs i b bv \<and> best_loop pv c cs i b bv < i + length cs)"
proof (induction cs arbitrary: i b bv)
  case Nil
  show ?case by simp
next
  case (Cons child rest)
  show ?case
  proof (cases "js_gt (getUCB1Value pv child c) bv")
    case True
    with Cons.IH [of "Suc i" i "getUCB1Value pv child c"] show ?thesis
      by (auto simp: Let_def)
  next
    case False
    with Cons.IH [of "Suc i" b bv] show ?thesis
      by (auto simp: Let_def)
  qed
qed

lemma getBestChildIndex_range:
  "getBestChildIndex node c = Some i \<Longrightarrow> i < length (children node)"
proof (cases "children node")
  case Nil
  assume "getBestChildIndex node c = Some i"
  with Nil show ?thesis by (simp add: getBestChildIndex_def)
next
  case (Cons first rest)
  assume "getBestChildIndex node c = Some i"
  then have "i = best_loop (visits node) c (children node) 0 0 (getUCB1Value (visits node) first c)"
    by (simp only: getBestChildIndex_def Cons list.case option.inject)
  moreover have "0 < length (children node)"
    using Cons by simp
  ultimately show ?thesis
    using best_loop_range [of "visits node" c "children node" 0 0 "getUCB1Value (visits node) first c"]
    by auto
qed

lemma child_smaller: "i < length (children node) \<Longrightarrow> size (children node ! i) < size node"
proof (cases node)
  case (MCTSNode s a cs v t)
  assume "i < length (children node)"
  then have "cs ! i \<in> set cs"
    using MCTSNode by simp
  then have "size (cs ! i) \<le> size_list size cs"
    by (rule size_list_estimation') simp
  then show ?thesis
    using MCTSNode by simp
qed

text \<open>
  Selection: the \<open>while\<close> loop descends to the best child as long as the node has
  children and its state is not terminal. The result is the path to the node it stops at.
\<close>

function select_path :: "('g, 'a) MCTSAI \<Rightarrow> ('g, 'a) MCTSNode \<Rightarrow> nat list" where
  "select_path ai node =
     (if \<not> isLeaf node \<and> \<not> isTerminalState ai (state node)
      then (case getBestChildIndex node (explorationConstant ai) of
              None \<Rightarrow> []
            | Some best \<Rightarrow> best # select_path ai (children node ! best))
      else [])"
  by pat_completeness auto
termination
  by (relation "measure (\<lambda>(ai, node). size node)")
    (auto dest!: getBestChildIndex_range intro: child_smaller)


declare select_path.simps [simp del]

text \<open>The node a path leads to, and a change made to the node at the end of a path.\<close>

fun node_at :: "('g, 'a) MCTSNode \<Rightarrow> nat list \<Rightarrow> ('g, 'a) MCTSNode" where
  "node_at node [] = node"
| "node_at node (i # path) = node_at (children node ! i) path"

fun update_at ::
  "(('g, 'a) MCTSNode \<Rightarrow> ('g, 'a) MCTSNode) \<Rightarrow> nat list \<Rightarrow> ('g, 'a) MCTSNode \<Rightarrow> ('g, 'a) MCTSNode" where
  "update_at f [] node = f node"
| "update_at f (i # path) (MCTSNode s a cs v t) =
     MCTSNode s a (cs[i := update_at f path (cs ! i)]) v t"

text \<open>
  \<open>expand\<close>: one new child per action of the node's state and its current player,
  appended in order; then, if the node has children, \<open>Math.floor(Math.random() * length)\<close>
  picks the one to simulate.
\<close>

definition add_children :: "('g, 'a) MCTSAI \<Rightarrow> ('g, 'a) MCTSNode \<Rightarrow> ('g, 'a) MCTSNode" where
  "add_children ai node =
     (let currentPlayer = currentPlayerId (turnInfo (state node));
          actions = getActionsForState ai (state node) (Some currentPlayer)
      in MCTSNode (state node) (action node)
           (children node @
              map (\<lambda>act. MCTSNode (simulateAction ai act (state node)) (Some act) [] 0 0) actions)
           (visits node) (totalValue node))"

definition random_child_index :: "draw \<Rightarrow> nat \<Rightarrow> nat" where
  "random_child_index r n = nat \<lfloor>Rep_draw r * real n\<rfloor>"

text \<open>
  \<open>backpropagate\<close> walks from the node at the end of the path to the root through the
  parents, that is over every node on the path, and adds one visit and the value to each.
\<close>

fun backpropagate :: "real \<Rightarrow> nat list \<Rightarrow> ('g, 'a) MCTSNode \<Rightarrow> ('g, 'a) MCTSNode" where
  "backpropagate v [] (MCTSNode s a cs n t) = MCTSNode s a cs (n + 1) (t + v)"
| "backpropagate v (i # path) (MCTSNode s a cs n t) =
     MCTSNode s a (cs[i := backpropagate v path (cs ! i)]) (n + 1) (t + v)"

text \<open>
  One iteration of the loop of \<open>chooseAction\<close>, on the tree (its root) and the number of random draws
  used so far: selection, expansion of a node whose state is not terminal, playout, and
  backpropagation.
\<close>

fun mcts_iteration ::
  "('g, 'a) MCTSAI \<Rightarrow> random_source \<Rightarrow> ('g, 'a) MCTSNode \<times> nat \<Rightarrow> ('g, 'a) MCTSNode \<times> nat" where
  "mcts_iteration ai rnd (tree, k) =
     (let path = select_path ai tree;
          selected = node_at tree path
      in if \<not> isTerminalState ai (state selected)
         then
           let tree1 = update_at (add_children ai) path tree;
               n = length (children (node_at tree1 path))
           in if n > 0
              then
                let path1 = path @ [random_child_index (rnd k) n];
                    playout = simulatePlayout ai (state (node_at tree1 path1)) rnd (Suc k)
                in (backpropagate (fst playout) path1 tree1, snd playout)
              else
                let playout = simulatePlayout ai (state (node_at tree1 path)) rnd k
                in (backpropagate (fst playout) path tree1, snd playout)
         else
           let playout = simulatePlayout ai (state selected) rnd k
           in (backpropagate (fst playout) path tree, snd playout))"

text \<open>The tree after all iterations, from a new root that wraps the state.\<close>

definition MCTSAI_search ::
  "('g, 'a) MCTSAI \<Rightarrow> random_source \<Rightarrow> 'g IGameState \<Rightarrow> ('g, 'a) MCTSNode" where
  "MCTSAI_search ai rnd st =
     fst ((mcts_iteration ai rnd ^^ iterations ai)
            (MCTSNode st None [] 0 0, simulateThinking (async ai)))"

fun most_visited :: "('g, 'a) MCTSNode \<Rightarrow> ('g, 'a) MCTSNode list \<Rightarrow> ('g, 'a) MCTSNode" where
  "most_visited bestChild [] = bestChild"
| "most_visited bestChild (child # rest) =
     most_visited (if visits child > visits bestChild then child else bestChild) rest"

definition MCTSAI_chooseAction ::
  "('g, 'a) MCTSAI \<Rightarrow> random_source \<Rightarrow> 'g IGameState \<Rightarrow> 'a list \<Rightarrow> 'a option" where
  "MCTSAI_chooseAction ai rnd st availableActions =
     (if availableActions = [] then None
      else
        let tree = MCTSAI_search ai rnd st
        in case children tree of
             [] \<Rightarrow> None
           | first # _ \<Rightarrow> action (most_visited first (children tree)))"

text \<open>The sum of the visit counts of a node's children.\<close>

definition children_visits :: "('g, 'a) MCTSNode \<Rightarrow> nat" where
  "children_visits node = sum_list (map visits (children node))"

text \<open>
  Two MCTS players of easy difficulty on numbered positions: one for a game with two moves
  everywhere that never ends, one that takes every position for terminal.
\<close>

definition easy_config :: IAIConfig where
  "easy_config =
     \<lparr> cfg_playerId = ''p1'', cfg_difficulty = EASY, cfg_async = False, cfg_maxDepth = None \<rparr>"

definition walking_mcts :: "(nat, nat) MCTSAI" where
  "walking_mcts =
     MCTSAI_new easy_config (\<lambda>st. Some (Fin (real (gameData st))))
       (\<lambda>a st. st\<lparr>gameData := 2 * gameData st + a\<rparr>) (\<lambda>_ _. [0, 1]) (\<lambda>_. False)
       (\<lambda>st rnd k. (real (gameData st), k))"

definition finished_mcts :: "(nat, nat) MCTSAI" where
  "finished_mcts =
     MCTSAI_new easy_config (\<lambda>st. Some (Fin (real (gameData st))))
       (\<lambda>a st. st\<lparr>gameData := 2 * gameData st + a\<rparr>) (\<lambda>_ _. [0, 1]) (\<lambda>_. True)
       (\<lambda>st rnd k. (real (gameData st), k))"

text \<open>A node visited once whose first child has been visited and whose second has not.\<close>

definition fresh_child :: "(nat, nat) MCTSNode" where
  "fresh_child = MCTSNode (stuck_state\<lparr>gameData := 1\<rparr>) (Some 1) [] 0 0"

definition half_explored :: "(nat, nat) MCTSNode" where
  "half_explored =
     MCTSNode stuck_state None
       [MCTSNode (stuck_state\<lparr>gameData := 0\<rparr>) (Some 0) [] 1 3, fresh_child] 1 3"

text \<open>Every node of the tree that has children has been visited.\<close>

fun visited_parents :: "('g, 'a) MCTSNode \<Rightarrow> bool" where
  "visited_parents (MCTSNode s a cs n t) =
     ((cs \<noteq> [] \<longrightarrow> 0 < n) \<and> (\<forall>child \<in> set cs. visited_parents child))"

section \<open>Properties of minimax\<close>

subsection \<open>The order of scores\<close>

lemma NegInf_least [simp]: "NegInf \<le> (x::score)"
  by (simp add: less_eq_score_def)

lemma PosInf_greatest [simp]: "(x::score) \<le> PosInf"
  by (cases x) (simp_all add: less_eq_score_def)

lemma fold_max_init:
  "fold (\<lambda>a acc. max acc (g a)) xs (m::score) = max m (fold (\<lambda>a acc. max acc (g a)) xs NegInf)"
proof (induction xs arbitrary: m)
  case Nil
  show ?case by (simp add: max_absorb1)
next
  case (Cons x xs)
  have "fold (\<lambda>a acc. max acc (g a)) (x # xs) m = fold (\<lambda>a acc. max acc (g a)) xs (max m (g x))"
    by simp
  also have "\<dots> = max (max m (g x)) (fold (\<lambda>a acc. max acc (g a)) xs NegInf)"
    by (rule Cons.IH)
  also have "\<dots> = max m (max (g x) (fold (\<lambda>a acc. max acc (g a)) xs NegInf))"
    by (simp add: max.assoc)
  also have "max (g x) (fold (\<lambda>a acc. max acc (g a)) xs NegInf) = fold (\<lambda>a acc. max acc (g a)) xs (max NegInf (g x))"
    using Cons.IH [of "max NegInf (g x)"] by (simp add: max_absorb2)
  finally show ?case by simp
qed

lemma fold_min_init:
  "fold (\<lambda>a acc. min acc (g a)) xs (m::score) = min m (fold (\<lambda>a acc. min acc (g a)) xs PosInf)"
proof (induction xs arbitrary: m)
  case Nil
  show ?case by (simp add: min_absorb1)
next
  case (Cons x xs)
  have "fold (\<lambda>a acc. min acc (g a)) (x # xs) m = fold (\<lambda>a acc. min acc (g a)) xs (min m (g x))"
    by simp
  also have "\<dots> = min (min m (g x)) (fold (\<lambda>a acc. min acc (g a)) xs PosInf)"
    by (rule Cons.IH)
  also have "\<dots> = min m (min (g x) (fold (\<lambda>a acc. min acc (g a)) xs PosInf))"
    by (simp add: min.assoc)
  also have "min (g x) (fold (\<lambda>a acc. min acc (g a)) xs PosInf) = fold (\<lambda>a acc. min acc (g a)) xs (min PosInf (g x))"
    using Cons.IH [of "min PosInf (g x)"] by (simp add: min_absorb2)
  finally show ?case by simp
qed

text \<open>One step of the maximizing loop, on values alone.\<close>

lemma max_step_cut:
  fixes a b v v' mx R :: score
  assumes "mx \<le> a" "a < b" "window_sound a b v v'" "b \<le> max a v'"
  shows "window_sound a b (max (max mx v) R) (max mx v')"
  using assms unfolding window_sound_def by (auto simp: max_def split: if_splits)

lemma max_step_go:
  fixes a b v v' mx R L :: score
  assumes "mx \<le> a" "a < b" "window_sound a b v v'" "\<not> b \<le> max a v'"
    "window_sound (max a v') b (max (max mx v') R) L"
  shows "window_sound a b (max (max mx v) R) L"
  using assms unfolding window_sound_def by (auto simp: max_def split: if_splits)

lemma min_step_cut:
  fixes a b v v' mn R :: score
  assumes "b \<le> mn" "a < b" "window_sound a b v v'" "min b v' \<le> a"
  shows "window_sound a b (min (min mn v) R) (min mn v')"
  using assms unfolding window_sound_def by (auto simp: min_def split: if_splits)

lemma min_step_go:
  fixes a b v v' mn R L :: score
  assumes "b \<le> mn" "a < b" "window_sound a b v v'" "\<not> min b v' \<le> a"
    "window_sound a (min b v') (min (min mn v') R) L"
  shows "window_sound a b (min (min mn v) R) L"
  using assms unfolding window_sound_def by (auto simp: min_def split: if_splits)


lemma window_sound_refl: "window_sound a b v v"
  by (simp add: window_sound_def)

lemma js_max_Some [simp]: "js_max (Some x) (Some y) = Some (max x y)"
  by (simp add: js_max_def)

lemma js_min_Some [simp]: "js_min (Some x) (Some y) = Some (min x y)"
  by (simp add: js_min_def)

lemma js_le_Some [simp]: "js_le (Some x) (Some y) = (x \<le> y)"
  by (simp add: js_le_def)

lemma js_gt_Some [simp]: "js_gt (Some x) (Some y) = (y < x)"
  by (simp add: js_gt_def)

lemma fold_js_max_defined:
  "\<forall>x \<in> set xs. g x \<noteq> None \<Longrightarrow>
   fold (\<lambda>a m. js_max m (g a)) xs (Some m0) = Some (fold (\<lambda>a m. max m (the (g a))) xs m0)"
  by (induction xs arbitrary: m0) auto

lemma fold_js_min_defined:
  "\<forall>x \<in> set xs. g x \<noteq> None \<Longrightarrow>
   fold (\<lambda>a m. js_min m (g a)) xs (Some m0) = Some (fold (\<lambda>a m. min m (the (g a))) xs m0)"
  by (induction xs arbitrary: m0) auto

lemma evaluate_defined:
  assumes "\<forall>s. evaluateState ai s \<noteq> None"
  shows "\<exists>r. evaluateState ai st = Some r"
proof -
  from assms have "evaluateState ai st \<noteq> None" by (rule spec)
  then show ?thesis by auto
qed

lemma unpruned_defined:
  assumes "\<forall>s. evaluateState ai s \<noteq> None"
  shows "minimax_unpruned ai st d maxi \<noteq> None"
proof (induction d arbitrary: st maxi)
  case 0
  show ?case using assms by simp
next
  case (Suc d)
  show ?case
    using assms Suc
    by (simp add: Let_def fold_js_max_defined fold_js_min_defined)
qed

lemma unpruned_max_node:
  assumes "\<forall>s. evaluateState ai s \<noteq> None" and "\<not> isTerminalState ai st"
  shows "minimax_unpruned ai st (Suc d) True =
    Some (fold (\<lambda>act m. max m (the (minimax_unpruned ai (simulateAction ai act st) d False)))
            (getActionsForState ai st (Some (playerId ai))) NegInf)"
  using assms(2) unpruned_defined [OF assms(1)]
  by (simp add: Let_def fold_js_max_defined)

lemma unpruned_min_node:
  assumes "\<forall>s. evaluateState ai s \<noteq> None" and "\<not> isTerminalState ai st"
  shows "minimax_unpruned ai st (Suc d) False =
    Some (fold (\<lambda>act m. min m (the (minimax_unpruned ai (simulateAction ai act st) d True)))
            (getActionsForState ai st (first_id (getOpponentIds (playerId ai) st))) PosInf)"
  using assms(2) unpruned_defined [OF assms(1)]
  by (simp add: Let_def fold_js_min_defined)

lemma alpha_beta_sound:
  "(\<forall>s. evaluateState ai s \<noteq> None) \<Longrightarrow> alpha = Some a \<Longrightarrow> beta = Some b \<Longrightarrow> a < b \<Longrightarrow>
     \<exists>r. minimax ai st d alpha beta maxi = Some r
        \<and> window_sound a b (the (minimax_unpruned ai st d maxi)) r"
  "(\<forall>s. evaluateState ai s \<noteq> None) \<Longrightarrow> maxEval = Some mx \<Longrightarrow> alpha = Some a \<Longrightarrow>
   beta = Some b \<Longrightarrow> mx \<le> a \<Longrightarrow> a < b \<Longrightarrow>
     \<exists>r. max_loop ai st d actions maxEval alpha beta = Some r
        \<and> window_sound a b
            (fold (\<lambda>act m. max m (the (minimax_unpruned ai (simulateAction ai act st) d False)))
               actions mx) r"
  "(\<forall>s. evaluateState ai s \<noteq> None) \<Longrightarrow> minEval = Some mn \<Longrightarrow> alpha = Some a \<Longrightarrow>
   beta = Some b \<Longrightarrow> b \<le> mn \<Longrightarrow> a < b \<Longrightarrow>
     \<exists>r. min_loop ai st d actions minEval alpha beta = Some r
        \<and> window_sound a b
            (fold (\<lambda>act m. min m (the (minimax_unpruned ai (simulateAction ai act st) d True)))
               actions mn) r"
proof (induction ai st d alpha beta maxi and ai st d actions maxEval alpha beta
         and ai st d actions minEval alpha beta
       arbitrary: a b and mx a b and mn a b
       rule: minimax_max_loop_min_loop.induct)
  case (1 ai st alpha beta maximizingPlayer)
  from evaluate_defined [OF "1.prems"(1)] obtain r where "evaluateState ai st = Some r"
    by blast
  then show ?case by (simp add: window_sound_refl)
next
  case (2 ai st d alpha beta maximizingPlayer)
  note defined = "2.prems"(1)
  show ?case
  proof (cases "isTerminalState ai st")
    case True
    from evaluate_defined [OF defined] obtain r where "evaluateState ai st = Some r"
      by blast
    with True show ?thesis by (simp add: window_sound_refl)
  next
    case False
    show ?thesis
    proof (cases maximizingPlayer)
      case True
      have "NegInf \<le> a" by simp
      from "2.IH"(1) [OF False refl refl True defined refl "2.prems"(2) "2.prems"(3) this "2.prems"(4)]
      show ?thesis
        using False True unpruned_max_node [OF defined False] by simp
    next
      case no: False
      have "b \<le> PosInf" by simp
      from "2.IH"(2) [OF False refl refl no defined refl "2.prems"(2) "2.prems"(3) this "2.prems"(4)]
      show ?thesis
        using False no unpruned_min_node [OF defined False] by simp
    qed
  qed
next
  case (3 ai st d maxEval alpha beta)
  then show ?case by (simp add: window_sound_refl)
next
  case (4 ai st d act rest maxEval alpha beta)
  note defined = "4.prems"(1) and mx = "4.prems"(2) and al = "4.prems"(3) and be = "4.prems"(4)
    and le = "4.prems"(5) and lt = "4.prems"(6)
  let ?g = "\<lambda>act. the (minimax_unpruned ai (simulateAction ai act st) d False)"
  let ?f = "\<lambda>act m. max m (?g act)"
  let ?v = "?g act"
  let ?R = "fold ?f rest NegInf"
  from "4.IH"(1) [OF refl defined al be lt]
  obtain v' where v': "minimax ai (simulateAction ai act st) d alpha beta False = Some v'"
    and child: "window_sound a b ?v v'"
    by blast
  have unfold_true: "fold ?f (act # rest) mx = max (max mx ?v) ?R"
    using fold_max_init [of ?g rest "max mx ?v"] by simp
  show ?case
  proof (cases "b \<le> max a v'")
    case True
    then have "max_loop ai st d (act # rest) maxEval alpha beta = Some (max mx v')"
      using v' mx al be by simp
    with max_step_cut [OF le lt child True] unfold_true show ?thesis by simp
  next
    case False
    then have res: "max_loop ai st d (act # rest) maxEval alpha beta
        = max_loop ai st d rest (Some (max mx v')) (Some (max a v')) beta"
      using v' mx al be by (simp add: Let_def)
    have stop: "\<not> js_le beta (js_max alpha (minimax ai (simulateAction ai act st) d alpha beta False))"
      using False v' al be by simp
    have le': "max mx v' \<le> max a v'"
      using le by (simp add: max.coboundedI1)
    have lt': "max a v' < b"
      using False by (simp only: not_le)
    have mx': "js_max maxEval (minimax ai (simulateAction ai act st) d alpha beta False)
        = Some (max mx v')"
      and al': "js_max alpha (minimax ai (simulateAction ai act st) d alpha beta False)
        = Some (max a v')"
      using v' mx al by simp_all
    from "4.IH"(2) [OF refl refl refl refl stop defined mx' al' be le' lt']
    obtain r where r: "max_loop ai st d rest (Some (max mx v')) (Some (max a v')) beta = Some r"
      and sound: "window_sound (max a v') b (fold ?f rest (max mx v')) r"
      using v' mx al by auto
    from sound have "window_sound (max a v') b (max (max mx v') ?R) r"
      using fold_max_init [of ?g rest "max mx v'"] by simp
    from max_step_go [OF le lt child False this] res r unfold_true
    show ?thesis by simp
  qed
next
  case (5 ai st d minEval alpha beta)
  then show ?case by (simp add: window_sound_refl)
next
  case (6 ai st d act rest minEval alpha beta)
  note defined = "6.prems"(1) and mn = "6.prems"(2) and al = "6.prems"(3) and be = "6.prems"(4)
    and le = "6.prems"(5) and lt = "6.prems"(6)
  let ?g = "\<lambda>act. the (minimax_unpruned ai (simulateAction ai act st) d True)"
  let ?f = "\<lambda>act m. min m (?g act)"
  let ?v = "?g act"
  let ?R = "fold ?f rest PosInf"
  from "6.IH"(1) [OF refl defined al be lt]
  obtain v' where v': "minimax ai (simulateAction ai act st) d alpha beta True = Some v'"
    and child: "window_sound a b ?v v'"
    by blast
  have unfold_true: "fold ?f (act # rest) mn = min (min mn ?v) ?R"
    using fold_min_init [of ?g rest "min mn ?v"] by simp
  show ?case
  proof (cases "min b v' \<le> a")
    case True
    then have "min_loop ai st d (act # rest) minEval alpha beta = Some (min mn v')"
      using v' mn al be by simp
    with min_step_cut [OF le lt child True] unfold_true show ?thesis by simp
  next
    case False
    then have res: "min_loop ai st d (act # rest) minEval alpha beta
        = min_loop ai st d rest (Some (min mn v')) alpha (Some (min b v'))"
      using v' mn al be by (simp add: Let_def)
    have stop: "\<not> js_le (js_min beta (minimax ai (simulateAction ai act st) d alpha beta True)) alpha"
      using False v' al be by simp
    have le': "min b v' \<le> min mn v'"
      using le by (simp add: min.coboundedI1)
    have lt': "a < min b v'"
      using False by (simp only: not_le)
    have mn': "js_min minEval (minimax ai (simulateAction ai act st) d alpha beta True)
        = Some (min mn v')"
      and be': "js_min beta (minimax ai (simulateAction ai act st) d alpha beta True)
        = Some (min b v')"
      using v' mn be by simp_all
    from "6.IH"(2) [OF refl refl refl refl stop defined mn' al be' le' lt']
    obtain r where r: "min_loop ai st d rest (Some (min mn v')) alpha (Some (min b v')) = Some r"
      and sound: "window_sound a (min b v') (fold ?f rest (min mn v')) r"
      using v' mn be by auto
    from sound have "window_sound a (min b v') (min (min mn v') ?R) r"
      using fold_min_init [of ?g rest "min mn v'"] by simp
    from min_step_go [OF le lt child False this] res r unfold_true
    show ?thesis by simp
  qed
qed

lemma window_sound_full: "window_sound NegInf PosInf v r \<Longrightarrow> r = v"
  unfolding window_sound_def
  by (cases r; cases v) (auto simp: less_eq_score_def less_score_def)

lemma minimax_full_window:
  assumes "\<forall>s. evaluateState ai s \<noteq> None"
  shows "minimax ai st d (Some NegInf) (Some PosInf) maxi = minimax_unpruned ai st d maxi"
proof -
  have "NegInf < PosInf" by (simp add: less_score_def)
  from alpha_beta_sound(1) [OF assms refl refl this, of st d maxi]
  obtain r where r: "minimax ai st d (Some NegInf) (Some PosInf) maxi = Some r"
    and "window_sound NegInf PosInf (the (minimax_unpruned ai st d maxi)) r"
    by blast
  then have "r = the (minimax_unpruned ai st d maxi)"
    by (intro window_sound_full)
  with r unpruned_defined [OF assms, of st d maxi] show ?thesis
    by auto
qed

lemmas leaf_game_defs =
  leaf_ai_def position_def js_max_def js_min_def js_le_def js_gt_def
  less_score_def less_eq_score_def max_def min_def Let_def

lemma leaf_search_pruned:
  "minimax (leaf_ai v) (position 2) (Suc (Suc 0)) (Some NegInf) (Some PosInf) False = Some (Fin 3)"
  "minimax (leaf_ai v) (position 3) (Suc (Suc 0)) (Some NegInf) (Some PosInf) False = Some (Fin 4)"
  by (simp_all add: leaf_game_defs)

lemma leaf_search_unpruned:
  "minimax_unpruned (leaf_ai v) (position 2) (Suc (Suc 0)) False
     = js_min (Some (Fin 3)) (js_max (Some (Fin 5)) v)"
  "minimax_unpruned (leaf_ai v) (position 3) (Suc (Suc 0)) False = Some (Fin 4)"
  by (simp_all add: leaf_ai_def position_def less_score_def less_eq_score_def max_def min_def Let_def)

lemma leaf_root:
  "maxDepth (leaf_ai v) - Suc 0 = Suc (Suc 0)"
  "simulateAction (leaf_ai v) 0 (position (Suc 0)) = position 2"
  "simulateAction (leaf_ai v) (Suc 0) (position (Suc 0)) = position 3"
  "difficulty (leaf_ai v) = HARD" "async (leaf_ai v) = False"
  by (simp_all add: leaf_ai_def position_def)

lemma zero_noise: "addNoise level v k (half_draws i) = v"
  by (cases v; cases "the v")
    (simp_all add: addNoise_def js_add_def noise_term_def half_draws_def draw_of.rep_eq)

lemma leaf_choice:
  "MinimaxAI_chooseAction (leaf_ai v) half_draws (position 1) [0, 1] = Some 1"
proof -
  have "MinimaxAI_evaluate (leaf_ai v) half_draws (position 1) [0, 1]
      = [(0, Some (Fin 3)), (1, Some (Fin 4))]"
    by (simp add: MinimaxAI_evaluate_def enumerate_eq_zip simulateThinking_def
        upt_rec leaf_root leaf_search_pruned zero_noise Let_def del: minimax.simps)
  then show ?thesis
    by (simp add: MinimaxAI_chooseAction_def best_action_def sort_desc_def less_score_def
        less_eq_score_def)
qed

text \<open>
  C1, as stated, fails for an evaluator that can return \<open>NaN\<close>. In the game of
  \<open>nan_leaf_ai\<close>, searched to depth 3 from position 1 with zero noise, the pruned search
  cuts the \<open>NaN\<close> leaf 11 (after leaf 10 is worth 5 against a bound of 3), values the two root
  actions 3 and 4 and chooses action 1. Without the cut \<open>Math.max\<close> and \<open>Math.min\<close> carry
  the \<open>NaN\<close> to the first root action, the comparator of the sort answers \<open>NaN\<close>, the
  order is kept and action 0 is chosen.
\<close>

theorem pruning_hides_NaN:
  "MinimaxAI_chooseAction nan_leaf_ai half_draws (position 1) [0, 1] = Some 1
   \<and> unpruned_chooseAction nan_leaf_ai half_draws (position 1) [0, 1] = Some 0
   \<and> evaluateState nan_leaf_ai (position 11) = None"
proof -
  have "unpruned_evaluate nan_leaf_ai half_draws (position 1) [0, 1]
      = [(0, None), (1, Some (Fin 4))]"
    by (simp add: unpruned_evaluate_def nan_leaf_ai_def enumerate_eq_zip simulateThinking_def
        upt_rec leaf_root leaf_search_unpruned zero_noise js_max_def js_min_def Let_def
        del: minimax_unpruned.simps)
  moreover have "evaluateState nan_leaf_ai (position 11) = None"
    by (simp add: nan_leaf_ai_def leaf_ai_def position_def)
  ultimately show ?thesis
    using leaf_choice [of None]
    by (simp add: nan_leaf_ai_def unpruned_chooseAction_def best_action_def
        sort_desc_def js_gt_def)
qed

text \<open>
  C1, amended. For every state, every list of root actions, every depth bound and every
  deterministic evaluator that never returns \<open>NaN\<close>, \<open>chooseAction\<close> with alpha-beta pruning
  selects the action an unpruned minimax search of the same depth selects. Each root action
  is searched with the full window, so its value is the unpruned value; the noise added is
  the same on both sides, in particular when it is zero.
\<close>

theorem alpha_beta_chooses_as_unpruned:
  assumes "\<forall>s. evaluateState ai s \<noteq> None"
  shows "MinimaxAI_chooseAction ai rnd st availableActions
           = unpruned_chooseAction ai rnd st availableActions"
  by (simp add: MinimaxAI_chooseAction_def unpruned_chooseAction_def MinimaxAI_evaluate_def
      unpruned_evaluate_def minimax_full_window [OF assms])

theorem alpha_beta_chooses_as_unpruned_witness:
  "(\<forall>s. evaluateState plain_leaf_ai s \<noteq> None)
   \<and> MinimaxAI_chooseAction plain_leaf_ai half_draws (position 1) [0, 1] = Some 1
   \<and> unpruned_chooseAction plain_leaf_ai half_draws (position 1) [0, 1] = Some 1"
proof -
  have defined: "\<forall>s. evaluateState plain_leaf_ai s \<noteq> None"
    by (simp add: plain_leaf_ai_def leaf_ai_def)
  from alpha_beta_chooses_as_unpruned [OF defined, of half_draws "position 1" "[0, 1]"]
    leaf_choice [of "Some (Fin 9)"] defined
  show ?thesis
    by (simp add: plain_leaf_ai_def)
qed

text \<open>
  C8. At a ply that is not terminal, with depth left, where \<open>getActionsForState\<close> returns no
  action, \<open>minimax\<close> returns the sentinel its loop started from, unchanged: minus infinity at
  a maximizing ply and plus infinity at a minimizing ply, not an evaluation of the state.
\<close>

theorem minimax_no_actions_returns_sentinel:
  assumes "0 < depth"
    and "\<not> isTerminalState ai st"
    and "getActionsForState ai st
           (if maximizingPlayer then Some (playerId ai)
            else first_id (getOpponentIds (playerId ai) st)) = []"
  shows "minimax ai st depth alpha beta maximizingPlayer
           = (if maximizingPlayer then Some NegInf else Some PosInf)"
proof -
  from assms(1) obtain d where "depth = Suc d"
    by (cases depth) simp_all
  with assms(2,3) show ?thesis
    by (cases maximizingPlayer) simp_all
qed

theorem minimax_no_actions_returns_sentinel_witness:
  "0 < (2::nat) \<and> \<not> isTerminalState stuck_ai stuck_state
   \<and> getActionsForState stuck_ai stuck_state
        (if True then Some (playerId stuck_ai)
         else first_id (getOpponentIds (playerId stuck_ai) stuck_state)) = []
   \<and> minimax stuck_ai stuck_state 2 (Some (Fin 1)) (Some (Fin 5)) True = Some NegInf
   \<and> evaluateState stuck_ai stuck_state = Some (Fin 7)"
  using minimax_no_actions_returns_sentinel [of 2 stuck_ai stuck_state True "Some (Fin 1)" "Some (Fin 5)"]
  by (simp add: stuck_ai_def)

lemma maxDepth_positive: "0 < maxDepth (MinimaxAI_new cfg ev sim acts term)"
  by (cases "cfg_difficulty cfg") (simp_all add: MinimaxAI_new_def split: option.splits)

text \<open>
  C10. A \<open>MinimaxAI\<close> constructed with an explicit \<open>config.maxDepth\<close> of 0 does not use
  that value: 0 is treated as an absent \<open>maxDepth\<close>, and the search depth is the default of
  the difficulty, 1 for EASY, 2 for MEDIUM, 3 for HARD and 4 for EXPERT.
\<close>

theorem maxDepth_zero_falls_back:
  "maxDepth (MinimaxAI_new (cfg\<lparr>cfg_maxDepth := Some 0\<rparr>) ev sim acts term)
     = maxDepth (MinimaxAI_new (cfg\<lparr>cfg_maxDepth := None\<rparr>) ev sim acts term)
   \<and> maxDepth (MinimaxAI_new (cfg\<lparr>cfg_maxDepth := Some 0\<rparr>) ev sim acts term)
     = (case cfg_difficulty cfg of EASY \<Rightarrow> 1 | MEDIUM \<Rightarrow> 2 | HARD \<Rightarrow> 3 | EXPERT \<Rightarrow> 4)"
  by (cases "cfg_difficulty cfg") (simp_all add: MinimaxAI_new_def)

section \<open>One-ply minimax and greedy search\<close>




section \<open>Properties of the state history\<close>

lemma pop_length_left: "xs \<noteq> [] \<Longrightarrow> Suc (length xs - Suc 0 + k) = length xs + k"
  by (cases xs) simp_all

lemma pop_length_right: "xs \<noteq> [] \<Longrightarrow> Suc (k + (length xs - Suc 0)) = k + length xs"
  by (cases xs) simp_all

lemma history_sum_bounded:
  "length (history m) + length (redoStack m) \<le> maxHistorySize m \<Longrightarrow>
   length (history (apply_op op m)) + length (redoStack (apply_op op m)) \<le> maxHistorySize (apply_op op m)
   \<and> maxHistorySize (apply_op op m) = maxHistorySize m"
  by (cases op)
    (auto simp: setState_def undo_def redo_def reset_def canUndo_def canRedo_def Let_def
      pop_length_left pop_length_right split: option.splits)

lemma run_ops_bounded:
  "length (history m) + length (redoStack m) \<le> maxHistorySize m \<Longrightarrow>
   length (history (run_ops ops m)) + length (redoStack (run_ops ops m)) \<le> maxHistorySize m
   \<and> maxHistorySize (run_ops ops m) = maxHistorySize m"
proof (induction ops arbitrary: m)
  case Nil
  then show ?case by (simp add: run_ops_def)
next
  case (Cons op ops)
  from history_sum_bounded [OF Cons.prems, of op]
  have step: "length (history (apply_op op m)) + length (redoStack (apply_op op m))
      \<le> maxHistorySize (apply_op op m)"
    and same: "maxHistorySize (apply_op op m) = maxHistorySize m"
    by simp_all
  from Cons.IH [OF step] same show ?case
    by (simp add: run_ops_def)
qed

text \<open>
  C9. Whatever sequence of \<open>setState\<close>, \<open>undo\<close>, \<open>redo\<close> and \<open>reset\<close> is applied to a
  new state manager, the history is never longer than the configured maximum; and a commit
  on a full history drops the oldest entry (the first) as it appends the state it replaces.
\<close>

theorem history_never_exceeds_bound:
  "length (history (run_ops ops (GameStateManager_new n))) \<le> n
   \<and> (\<forall>m cur st. currentState m = Some cur \<and> maxHistorySize m \<le> length (history m) \<longrightarrow>
         history (setState st m) = drop 1 (history m @ [cur]))"
proof
  have "length (history (GameStateManager_new n :: 'a GameStateManager))
        + length (redoStack (GameStateManager_new n :: 'a GameStateManager))
      \<le> maxHistorySize (GameStateManager_new n :: 'a GameStateManager)"
    by (simp add: GameStateManager_new_def)
  from run_ops_bounded [OF this, of ops]
  show "length (history (run_ops ops (GameStateManager_new n :: 'a GameStateManager))) \<le> n"
    by (simp add: GameStateManager_new_def)
next
  show "\<forall>(m :: 'b GameStateManager) cur st. currentState m = Some cur \<and> maxHistorySize m \<le> length (history m) \<longrightarrow>
         history (setState st m) = drop 1 (history m @ [cur])"
    by (simp add: setState_def deepClone_def)
qed

theorem history_never_exceeds_bound_witness:
  "length (history (run_ops [SetState stuck_state, SetState stuck_state, SetState stuck_state,
             Undo, Redo] (GameStateManager_new 1))) \<le> 1
   \<and> currentState (setState stuck_state (GameStateManager_new 0)) = Some stuck_state
   \<and> maxHistorySize (setState stuck_state (GameStateManager_new 0))
       \<le> length (history (setState stuck_state (GameStateManager_new 0)))
   \<and> history (setState (stuck_state\<lparr>gameData := 1\<rparr>) (setState stuck_state (GameStateManager_new 0)))
       = drop 1 (history (setState stuck_state (GameStateManager_new 0)) @ [stuck_state])"
proof -
  let ?m = "setState stuck_state (GameStateManager_new 0) :: nat GameStateManager"
  have cur: "currentState ?m = Some stuck_state"
    and full: "maxHistorySize ?m \<le> length (history ?m)"
    by (simp_all add: setState_def GameStateManager_new_def deepClone_def)
  from history_never_exceeds_bound
    [of "[SetState stuck_state, SetState stuck_state, SetState stuck_state, Undo, Redo]" 1]
  have bound: "length (history (run_ops [SetState stuck_state, SetState stuck_state,
      SetState stuck_state, Undo, Redo] (GameStateManager_new 1))) \<le> 1"
    and drops: "currentState ?m = Some stuck_state \<and> maxHistorySize ?m \<le> length (history ?m) \<longrightarrow>
         history (setState (stuck_state\<lparr>gameData := 1\<rparr>) ?m) = drop 1 (history ?m @ [stuck_state])"
    by blast+
  from bound drops cur full show ?thesis by simp
qed

section \<open>Properties of the controller\<close>

lemma findIndex_absent: "(findIndex P xs = -1) = (\<forall>x \<in> set xs. \<not> P x)"
proof (induction xs)
  case Nil
  show ?case by simp
next
  case (Cons x xs)
  have "findIndex P xs \<ge> -1" for xs
    by (induction xs) (auto simp: Let_def)
  from this [of xs] have "findIndex P xs + 1 \<noteq> -1"
    by arith
  with Cons show ?case by (auto simp: Let_def)
qed

lemmas controller_defs =
  started_def turn_undone_def initialize_def GameController_new_def GameStateManager_new_def
  TurnManager_new_def TurnManager_initialize_def validateConfig_def two_players_def
  counter_rules_def commit_def emit_def setState_def deepClone_def getState_def
  getCurrentState_def endTurn_def getNextPlayer_def at_index_def sequential_def indexOf_def
  GameController_undo_def GameController_redo_def undo_def redo_def canUndo_def canRedo_def
  current_player_def current_turn_def Let_def

text \<open>
  C5. On an initialized controller whose history is not empty, \<open>undo()\<close> and then \<open>redo()\<close>
  both return true, and the current state afterwards is the state before the undo; the two
  stacks are as they were too. This holds at any history depth.
\<close>

theorem undo_then_redo_restores:
  assumes "getState c = Inr st"
    and "history (stateManager c) \<noteq> []"
  shows "fst (GameController_undo c) = Inr True
    \<and> fst (GameController_redo (snd (GameController_undo c))) = Inr True
    \<and> getState (snd (GameController_redo (snd (GameController_undo c)))) = Inr st
    \<and> stateManager (snd (GameController_redo (snd (GameController_undo c)))) = stateManager c"
  using assms
  by (auto simp: GameController_undo_def GameController_redo_def undo_def redo_def getState_def
      getCurrentState_def canUndo_def canRedo_def deepClone_def emit_def Let_def
      split: option.splits)

theorem undo_then_redo_restores_witness:
  "history (stateManager (snd (endTurn 5 started))) \<noteq> []
   \<and> fst (GameController_undo (snd (endTurn 5 started))) = Inr True
   \<and> fst (GameController_redo (snd (GameController_undo (snd (endTurn 5 started))))) = Inr True
   \<and> getState (snd (GameController_redo (snd (GameController_undo (snd (endTurn 5 started))))))
       = getState (snd (endTurn 5 started))
   \<and> current_turn (snd (endTurn 5 started)) = Some 2"
proof -
  obtain st where st: "getState (snd (endTurn 5 started)) = Inr st"
    and turn: "turnNumber (turnInfo st) = 2"
    by (simp add: controller_defs)
  have depth: "history (stateManager (snd (endTurn 5 started))) \<noteq> []"
    by (simp add: controller_defs)
  from undo_then_redo_restores [OF st depth] st turn depth
  show ?thesis
    by (simp add: current_turn_def)
qed

text \<open>
  C3. When \<open>rules.validateAction\<close> reports the action invalid, \<open>executeAction\<close> returns a
  failure carrying the reason, and the controller is left exactly as it was: the current
  state, the history, the redo stack and the list of emitted events are unchanged.
\<close>

theorem invalid_action_changes_nothing:
  assumes "getState c = Inr cur"
    and "\<not> isValid (validateAction (rules c) act cur)"
  shows "GameController_executeAction act c =
           (Inr \<lparr> success = False, newState = None,
                  result_error = Some (reason_or_default (reason (validateAction (rules c) act cur))),
                  sideEffects = None \<rparr>, c)"
  using assms by (simp add: GameController_executeAction_def)

theorem invalid_action_changes_nothing_witness:
  "current_player started = Some ''player1''
   \<and> action_playerId wrong_turn_move = ''player2''
   \<and> snd (GameController_executeAction wrong_turn_move started) = started
   \<and> map_sum id result_error (fst (GameController_executeAction wrong_turn_move started))
       = Inr (Some ''Not your turn'')"
proof -
  obtain st where st: "getState started = Inr st"
    and who: "currentPlayerId (turnInfo st) = ''player1''"
    by (simp add: controller_defs)
  have r: "rules started = counter_rules"
    by (simp add: controller_defs)
  have invalid: "\<not> isValid (validateAction (rules started) wrong_turn_move st)"
    and why: "reason (validateAction (rules started) wrong_turn_move st) = Some ''Not your turn''"
    using who by (simp_all add: r counter_rules_def wrong_turn_move_def)
  from invalid_action_changes_nothing [OF st invalid] why st who
  show ?thesis
    by (simp add: current_player_def wrong_turn_move_def reason_or_default_def)
qed

lemma findIndex_found:
  "\<exists>x \<in> set xs. P x \<Longrightarrow>
   0 \<le> findIndex P xs \<and> findIndex P xs < int (length xs) \<and> P (xs ! nat (findIndex P xs))"
proof (induction xs)
  case Nil
  then show ?case by simp
next
  case (Cons x xs)
  show ?case
  proof (cases "P x")
    case True
    then show ?thesis by simp
  next
    case False
    with Cons.prems have rest: "\<exists>x \<in> set xs. P x" by simp
    with Cons.IH have ih: "0 \<le> findIndex P xs" "findIndex P xs < int (length xs)"
      "P (xs ! nat (findIndex P xs))"
      by simp_all
    from ih(1) have "findIndex P xs \<noteq> -1" by simp
    with False ih show ?thesis
      by (simp add: Let_def nat_add_distrib)
  qed
qed

text \<open>
  Where the cursor of the turn manager is at the state's current player, \<open>endTurn()\<close>
  applies the strategy to the full list of player ids from that player, makes the result the
  current player, adds exactly 1 to \<open>turnNumber\<close>, resets \<open>movesThisTurn\<close>, and leaves the
  cursor at the new current player.
\<close>

lemma endTurn_in_step:
  assumes "getState c = Inr cur"
    and "\<not> isComplete cur"
    and "at_index (tm_players (turnManager c)) (currentPlayerIndex (turnManager c)) = Some p"
    and "player_id p = currentPlayerId (turnInfo cur)"
    and "turnOrderStrategy (turnManager c) (currentPlayerId (turnInfo cur))
           (map player_id (tm_players (turnManager c))) = Some next"
    and "next \<in> set (map player_id (tm_players (turnManager c)))"
  shows "fst (endTurn now c) = Inr ()
    \<and> getState (snd (endTurn now c)) =
        Inr (cur\<lparr> turnInfo := (turnInfo cur)
               \<lparr> currentPlayerId := next,
                 turnNumber := turnNumber (turnInfo cur) + 1,
                 movesThisTurn := 0,
                 timeStarted := now \<rparr> \<rparr>)
    \<and> tm_players (turnManager (snd (endTurn now c))) = tm_players (turnManager c)
    \<and> (\<exists>q. at_index (tm_players (turnManager (snd (endTurn now c))))
               (currentPlayerIndex (turnManager (snd (endTurn now c)))) = Some q
            \<and> player_id q = next)"
proof -
  let ?tm = "turnManager c"
  let ?i = "findIndex (\<lambda>q. Some (player_id q) = Some next) (tm_players ?tm)"
  have listed: "\<exists>q \<in> set (tm_players ?tm). Some (player_id q) = Some next"
    using assms(6) by auto
  from findIndex_found [OF listed]
  have range: "0 \<le> ?i" "?i < int (length (tm_players ?tm))"
    and hit: "player_id (tm_players ?tm ! nat ?i) = next"
    by simp_all
  from range have found: "?i \<noteq> -1" by simp
  have nonempty: "tm_players ?tm \<noteq> []"
    using assms(6) by auto
  have next_player: "getNextPlayer ?tm = (Inr next, ?tm\<lparr> currentPlayerIndex := ?i \<rparr>)"
    using assms(3,4,5) found nonempty by (simp add: getNextPlayer_def Let_def)
  have after: "turnManager (snd (endTurn now c)) = ?tm\<lparr> currentPlayerIndex := ?i \<rparr>"
    using assms(1,2) next_player
    by (simp add: endTurn_def Let_def emit_def commit_def getState_def getCurrentState_def
        split: option.splits)
  have "at_index (tm_players ?tm) ?i = Some (tm_players ?tm ! nat ?i)"
    using range by (simp add: at_index_def)
  with hit after have cursor: "\<exists>q. at_index (tm_players (turnManager (snd (endTurn now c))))
               (currentPlayerIndex (turnManager (snd (endTurn now c)))) = Some q
            \<and> player_id q = next"
    by simp
  have "fst (endTurn now c) = Inr ()
    \<and> getState (snd (endTurn now c)) =
        Inr (cur\<lparr> turnInfo := (turnInfo cur)
               \<lparr> currentPlayerId := next,
                 turnNumber := turnNumber (turnInfo cur) + 1,
                 movesThisTurn := 0,
                 timeStarted := now \<rparr> \<rparr>)"
    using assms(1,2) next_player
    by (simp add: endTurn_def Let_def emit_def commit_def getState_def getCurrentState_def
        setState_def deepClone_def split: option.splits)
  with after cursor show ?thesis by simp
qed

text \<open>
  C2. On an initialized game that is not complete, \<open>endTurn()\<close> is to compute the next
  player with the turn-order strategy over the full ordered list of player ids, starting
  from the state's \<open>turnInfo.currentPlayerId\<close>, to make that player current, to add exactly 1
  to \<open>turnNumber\<close> and to reset \<open>movesThisTurn\<close>. The code starts from the cursor of the turn
  manager instead, and \<open>undo()\<close> restores the state without the cursor. Evaluated for two
  players after \<open>initialize\<close>, \<open>endTurn\<close> and \<open>undo\<close>: the state is the initial state again
  (player1, turn 1), from which \<open>endTurn\<close> on the started game goes to player2; but the cursor
  is still on player2, and \<open>endTurn\<close> makes player1 current again in turn 2 and emits
  \<open>turnEnded\<close> and \<open>turnStarted\<close> both for player1.
\<close>

theorem endTurn_ignores_state_player:
  "getState turn_undone = getState started
   \<and> current_player started = Some ''player1''
   \<and> current_turn started = Some 1
   \<and> sequential ''player1'' (map player_id (tm_players (turnManager turn_undone))) = Some ''player2''
   \<and> current_player (snd (endTurn 9 started)) = Some ''player2''
   \<and> fst (endTurn 9 turn_undone) = Inr ()
   \<and> current_player (snd (endTurn 9 turn_undone)) = Some ''player1''
   \<and> current_turn (snd (endTurn 9 turn_undone)) = Some 2
   \<and> currentPlayerIndex (turnManager started) = 0
   \<and> currentPlayerIndex (turnManager turn_undone) = 1
   \<and> drop 5 (emitted (snd (endTurn 9 turn_undone)))
       = [TurnEnded ''player1'' 1, TurnStarted ''player1'' 2]"
  by (simp add: controller_defs)

section \<open>Properties of the tree search\<close>

subsection \<open>Paths, expansion and backpropagation\<close>

lemma visits_backpropagate [simp]: "visits (backpropagate v path node) = Suc (visits node)"
  by (cases node; cases path) simp_all

lemma state_backpropagate [simp]: "state (backpropagate v path node) = state node"
  by (cases node; cases path) simp_all

lemma length_children_backpropagate [simp]:
  "length (children (backpropagate v path node)) = length (children node)"
  by (cases node; cases path) simp_all

lemma visits_update_at:
  "(\<And>x. visits (f x) = visits x) \<Longrightarrow> visits (update_at f path node) = visits node"
  by (cases node; cases path) simp_all

lemma state_update_at:
  "(\<And>x. state (f x) = state x) \<Longrightarrow> state (update_at f path node) = state node"
  by (cases node; cases path) simp_all

lemma visits_add_children [simp]: "visits (add_children ai node) = visits node"
  by (simp add: add_children_def Let_def)

lemma state_add_children [simp]: "state (add_children ai node) = state node"
  by (simp add: add_children_def Let_def)

lemma sum_visits_update:
  "i < length cs \<Longrightarrow> visits c' = visits (cs ! i) + d \<Longrightarrow>
   sum_list (map visits (cs[i := c'])) = sum_list (map visits cs) + d"
proof (induction cs arbitrary: i)
  case Nil
  then show ?case by simp
next
  case (Cons x xs)
  then show ?case by (cases i) simp_all
qed

lemma children_visits_backpropagate:
  "i < length (children node) \<Longrightarrow>
   children_visits (backpropagate v (i # path) node) = Suc (children_visits node)"
  by (cases node) (simp add: children_visits_def sum_visits_update [where d = 1])

lemma children_visits_update_at:
  "children_visits (update_at (add_children ai) (i # path) node) = children_visits node"
proof (cases node)
  case (MCTSNode s a cs n t)
  show ?thesis
  proof (cases "i < length cs")
    case True
    have "visits (update_at (add_children ai) path (cs ! i)) = visits (cs ! i) + 0"
      by (simp add: visits_update_at)
    from sum_visits_update [OF True this] show ?thesis
      using MCTSNode by (simp add: children_visits_def)
  next
    case False
    then show ?thesis
      using MCTSNode by (simp add: children_visits_def list_update_beyond)
  qed
qed

lemma length_children_update_at:
  "length (children (update_at f (i # path) node)) = length (children node)"
  by (cases node) simp

lemma random_child_index_less: "0 < n \<Longrightarrow> random_child_index r n < n"
proof -
  assume n: "0 < n"
  have r: "0 \<le> Rep_draw r" "Rep_draw r < 1"
    using Rep_draw [of r] by simp_all
  have "Rep_draw r * real n < real n"
    using r n by simp
  then have "\<lfloor>Rep_draw r * real n\<rfloor> < int n"
    by (simp add: floor_less_iff)
  moreover have "0 \<le> \<lfloor>Rep_draw r * real n\<rfloor>"
    using r by simp
  ultimately show ?thesis
    by (simp add: random_child_index_def nat_less_iff)
qed

lemma select_path_leaf: "children node = [] \<Longrightarrow> select_path ai node = []"
  by (simp add: select_path.simps isLeaf_def)

lemma select_path_terminal: "isTerminalState ai (state node) \<Longrightarrow> select_path ai node = []"
  by (simp add: select_path.simps)

lemma select_path_inner:
  assumes "children node \<noteq> []" and "\<not> isTerminalState ai (state node)"
  shows "\<exists>i path. select_path ai node = i # path \<and> i < length (children node)"
proof -
  from assms(1) obtain first rest where "children node = first # rest"
    by (cases "children node") simp_all
  then obtain i where i: "getBestChildIndex node (explorationConstant ai) = Some i"
    by (simp only: getBestChildIndex_def list.case)
  then have "i < length (children node)"
    by (rule getBestChildIndex_range)
  moreover have "select_path ai node = i # select_path ai (children node ! i)"
    using assms i by (subst select_path.simps) (simp add: isLeaf_def)
  ultimately show ?thesis by blast
qed


lemma children_visits_add_children:
  "children_visits (add_children ai node) = children_visits node"
  by (simp add: children_visits_def add_children_def Let_def comp_def)

lemma children_add_children:
  "children (add_children ai node) =
     children node @ map (\<lambda>act. MCTSNode (simulateAction ai act (state node)) (Some act) [] 0 0)
       (getActionsForState ai (state node) (Some (currentPlayerId (turnInfo (state node)))))"
  by (simp add: add_children_def Let_def)

lemma iteration_state: "state (fst (mcts_iteration ai rnd (tree, k))) = state tree"
  by (simp add: Let_def state_update_at)

lemma iteration_at_leaf:
  assumes "children tree = []"
    and "\<not> isTerminalState ai (state tree)"
    and "getActionsForState ai (state tree) (Some (currentPlayerId (turnInfo (state tree)))) \<noteq> []"
  shows "children_visits (fst (mcts_iteration ai rnd (tree, k))) = Suc (children_visits tree)"
proof -
  let ?tree1 = "add_children ai tree"
  let ?n = "length (children ?tree1)"
  have path: "select_path ai tree = []"
    using assms(1) by (rule select_path_leaf)
  have n: "0 < ?n"
    using assms(3) by (simp add: children_add_children)
  let ?j = "random_child_index (rnd k) ?n"
  have j: "?j < length (children ?tree1)"
    using n by (rule random_child_index_less)
  have "fst (mcts_iteration ai rnd (tree, k))
      = backpropagate (fst (simulatePlayout ai (state (node_at ?tree1 [?j])) rnd (Suc k))) [?j] ?tree1"
    using path assms(2) n by (simp add: Let_def)
  then show ?thesis
    using children_visits_backpropagate [OF j] by (simp add: children_visits_add_children)
qed

lemma iteration_below_root:
  assumes "children tree \<noteq> []"
    and "\<not> isTerminalState ai (state tree)"
  shows "children_visits (fst (mcts_iteration ai rnd (tree, k))) = Suc (children_visits tree)"
proof -
  from select_path_inner [OF assms] obtain i path
    where path: "select_path ai tree = i # path" and i: "i < length (children tree)"
    by blast
  let ?tree1 = "update_at (add_children ai) (i # path) tree"
  have i1: "i < length (children ?tree1)"
    using i by (simp add: length_children_update_at)
  have same: "children_visits ?tree1 = children_visits tree"
    by (rule children_visits_update_at)
  have grown: "children_visits (backpropagate v (i # p) ?tree1) = Suc (children_visits tree)" for v p
    using children_visits_backpropagate [OF i1] same by simp
  have kept: "children_visits (backpropagate v (i # p) tree) = Suc (children_visits tree)" for v p
    using children_visits_backpropagate [OF i] by simp
  show ?thesis
    using path grown kept by (simp add: Let_def del: backpropagate.simps update_at.simps)
qed

lemma iteration_counts_one:
  assumes "\<not> isTerminalState ai (state tree)"
    and "getActionsForState ai (state tree) (Some (currentPlayerId (turnInfo (state tree)))) \<noteq> []"
  shows "children_visits (fst (mcts_iteration ai rnd (tree, k))) = Suc (children_visits tree)"
proof (cases "children tree = []")
  case True
  from iteration_at_leaf [OF True assms] show ?thesis .
next
  case False
  from iteration_below_root [OF False assms(1)] show ?thesis .
qed

lemma iterations_count:
  assumes "\<not> isTerminalState ai (state tree)"
    and "getActionsForState ai (state tree) (Some (currentPlayerId (turnInfo (state tree)))) \<noteq> []"
  shows "state (fst ((mcts_iteration ai rnd ^^ n) (tree, k))) = state tree
    \<and> children_visits (fst ((mcts_iteration ai rnd ^^ n) (tree, k))) = n + children_visits tree"
proof (induction n)
  case 0
  show ?case by simp
next
  case (Suc n)
  obtain t' k' where step: "(mcts_iteration ai rnd ^^ n) (tree, k) = (t', k')"
    by (cases "(mcts_iteration ai rnd ^^ n) (tree, k)")
  with Suc have st: "state t' = state tree" and count: "children_visits t' = n + children_visits tree"
    by simp_all
  have "children_visits (fst (mcts_iteration ai rnd (t', k'))) = Suc (children_visits t')"
    using assms st by (intro iteration_counts_one) simp_all
  moreover have "state (fst (mcts_iteration ai rnd (t', k'))) = state t'"
    by (rule iteration_state)
  ultimately show ?case
    using step st count by (simp del: mcts_iteration.simps)
qed


lemma iteration_terminal_root:
  assumes "isTerminalState ai (state tree)"
  shows "fst (mcts_iteration ai rnd (tree, k))
           = backpropagate (fst (simulatePlayout ai (state tree) rnd k)) [] tree"
  using assms select_path_terminal [OF assms] by (simp add: Let_def)

lemma iterations_terminal_root:
  assumes "isTerminalState ai (state tree)"
  shows "state (fst ((mcts_iteration ai rnd ^^ n) (tree, k))) = state tree
    \<and> children (fst ((mcts_iteration ai rnd ^^ n) (tree, k))) = children tree"
proof (induction n)
  case 0
  show ?case by simp
next
  case (Suc n)
  obtain t' k' where step: "(mcts_iteration ai rnd ^^ n) (tree, k) = (t', k')"
    by (cases "(mcts_iteration ai rnd ^^ n) (tree, k)")
  with Suc have st: "state t' = state tree" and cs: "children t' = children tree"
    by simp_all
  have "isTerminalState ai (state t')"
    using assms st by simp
  from iteration_terminal_root [OF this]
  have "fst (mcts_iteration ai rnd (t', k'))
      = backpropagate (fst (simulatePlayout ai (state t') rnd k')) [] t'" .
  then show ?case
    using step st cs by (cases t') (simp del: mcts_iteration.simps)
qed

subsection \<open>Every parent in the tree has been visited\<close>

text \<open>
  A node gets children only in an iteration whose backpropagation then passes through it, so
  in the tree of a search every node that has children has at least one visit. Selection
  calls \<open>getBestChild\<close> on such nodes only.
\<close>

lemma visited_parents_children:
  "visited_parents node \<Longrightarrow> child \<in> set (children node) \<Longrightarrow> visited_parents child"
  by (cases node) simp

lemma visited_parents_visits:
  "visited_parents node \<Longrightarrow> children node \<noteq> [] \<Longrightarrow> 0 < visits node"
  by (cases node) simp

lemma backpropagate_visited_parents:
  "\<forall>child \<in> set (children node). visited_parents child \<Longrightarrow>
   visited_parents (backpropagate v path node)"
proof (induction path arbitrary: node)
  case Nil
  then show ?case by (cases node) simp
next
  case (Cons i path)
  obtain s a cs n t where node: "node = MCTSNode s a cs n t"
    by (cases node)
  have "visited_parents child" if "child \<in> set (cs[i := backpropagate v path (cs ! i)])" for child
  proof (cases "i < length cs")
    case True
    then have "visited_parents (cs ! i)"
      using Cons.prems node by simp
    then have "visited_parents (backpropagate v path (cs ! i))"
      by (intro Cons.IH) (auto dest: visited_parents_children)
    with that Cons.prems node show ?thesis
      by (auto dest!: subsetD [OF set_update_subset_insert])
  next
    case False
    with that Cons.prems node show ?thesis
      by (simp add: list_update_beyond)
  qed
  then show ?case
    using node by simp
qed

lemma expand_visited_parents:
  "\<forall>child \<in> set (children node). visited_parents child \<Longrightarrow>
   visited_parents (backpropagate v (path @ q) (update_at (add_children ai) path node))"
proof (induction path arbitrary: node)
  case Nil
  have "\<forall>child \<in> set (children (add_children ai node)). visited_parents child"
    using Nil by (auto simp: add_children_def Let_def)
  then show ?case
    by (simp add: backpropagate_visited_parents)
next
  case (Cons i path)
  obtain s a cs n t where node: "node = MCTSNode s a cs n t"
    by (cases node)
  let ?u = "update_at (add_children ai) path (cs ! i)"
  have "visited_parents child"
    if "child \<in> set (cs[i := ?u, i := backpropagate v (path @ q) (cs[i := ?u] ! i)])" for child
  proof (cases "i < length cs")
    case True
    then have "visited_parents (cs ! i)"
      using Cons.prems node by simp
    then have "visited_parents (backpropagate v (path @ q) ?u)"
      by (intro Cons.IH) (auto dest: visited_parents_children)
    with that True Cons.prems node show ?thesis
      by (auto dest!: subsetD [OF set_update_subset_insert])
  next
    case False
    with that Cons.prems node show ?thesis
      by (simp add: list_update_beyond)
  qed
  then show ?case
    using node by simp
qed

lemma iteration_visited_parents:
  assumes "visited_parents tree"
  shows "visited_parents (fst (mcts_iteration ai rnd (tree, k)))"
proof -
  have ok: "\<forall>child \<in> set (children tree). visited_parents child"
    using assms by (auto dest: visited_parents_children)
  have "visited_parents (backpropagate v (p @ [j]) (update_at (add_children ai) p tree))" for v p j
    using ok by (rule expand_visited_parents)
  moreover have "visited_parents (backpropagate v p (update_at (add_children ai) p tree))" for v p
    using expand_visited_parents [OF ok, of v p "[]"] by simp
  moreover have "visited_parents (backpropagate v p tree)" for v p
    using ok by (rule backpropagate_visited_parents)
  ultimately show ?thesis
    by (simp add: Let_def)
qed

lemma search_visited_parents: "visited_parents (MCTSAI_search ai rnd st)"
proof -
  have "visited_parents (fst ((mcts_iteration ai rnd ^^ n) (MCTSNode st None [] 0 0, k)))" for n k
  proof (induction n)
    case 0
    show ?case by simp
  next
    case (Suc n)
    obtain t' k' where step: "(mcts_iteration ai rnd ^^ n) (MCTSNode st None [] 0 0, k) = (t', k')"
      by (cases "(mcts_iteration ai rnd ^^ n) (MCTSNode st None [] 0 0, k)")
    with Suc have "visited_parents t'" by simp
    then have "visited_parents (fst (mcts_iteration ai rnd (t', k')))"
      by (rule iteration_visited_parents)
    then show ?case
      using step by (simp del: mcts_iteration.simps)
  qed
  then show ?thesis
    by (simp add: MCTSAI_search_def)
qed

subsection \<open>The visit counts of the root's children\<close>

text \<open>
  C4, as stated, fails: \<open>availableActions\<close> is only tested for emptiness, the tree is
  built from \<open>isTerminalState\<close> and \<open>getActionsForState\<close>. For an AI that takes the root
  state for terminal, the 100 iterations of easy difficulty never expand the root: it has no
  children, the sum of their visit counts is 0, and \<open>chooseAction\<close> returns \<open>null\<close> although
  two actions were available.
\<close>

theorem terminal_root_has_no_children:
  "children_visits (MCTSAI_search finished_mcts half_draws stuck_state) = 0
   \<and> iterations finished_mcts = 100
   \<and> MCTSAI_chooseAction finished_mcts half_draws stuck_state [0, 1] = None"
proof -
  have "isTerminalState finished_mcts (state (MCTSNode stuck_state None [] 0 0 :: (nat, nat) MCTSNode))"
    by (simp add: finished_mcts_def MCTSAI_new_def)
  from iterations_terminal_root [OF this, where rnd = half_draws
      and n = "iterations finished_mcts" and k = "simulateThinking (async finished_mcts)"]
  have "children (MCTSAI_search finished_mcts half_draws stuck_state) = []"
    by (simp add: MCTSAI_search_def)
  then show ?thesis
    by (simp add: children_visits_def MCTSAI_chooseAction_def finished_mcts_def MCTSAI_new_def
        easy_config_def)
qed

text \<open>
  C4, amended. When the root state is not terminal and \<open>getActionsForState\<close> returns at
  least one action for it and its current player, then after the iterations of the
  difficulty (100 for EASY, 500 for MEDIUM, 1000 for HARD, 2000 for EXPERT) the visit counts
  of the root's children add up to the number of iterations.
\<close>

theorem root_children_visits_sum:
  assumes "\<not> term st"
    and "acts st (Some (currentPlayerId (turnInfo st))) \<noteq> []"
  shows "children_visits (MCTSAI_search (MCTSAI_new cfg ev sim acts term playout) rnd st)
           = (case cfg_difficulty cfg of
                EASY \<Rightarrow> 100 | MEDIUM \<Rightarrow> 500 | HARD \<Rightarrow> 1000 | EXPERT \<Rightarrow> 2000)"
proof -
  let ?ai = "MCTSAI_new cfg ev sim acts term playout"
  have "\<not> isTerminalState ?ai (state (MCTSNode st None [] 0 0 :: ('a, 'b) MCTSNode))"
    and "getActionsForState ?ai (state (MCTSNode st None [] 0 0 :: ('a, 'b) MCTSNode))
           (Some (currentPlayerId (turnInfo (state (MCTSNode st None [] 0 0 :: ('a, 'b) MCTSNode)))))
         \<noteq> []"
    using assms by (simp_all add: MCTSAI_new_def)
  from iterations_count [OF this, where rnd = rnd and n = "iterations ?ai"
      and k = "simulateThinking (async ?ai)"]
  have "children_visits (MCTSAI_search ?ai rnd st) = iterations ?ai"
    by (simp add: MCTSAI_search_def children_visits_def)
  then show ?thesis
    by (cases "cfg_difficulty cfg") (simp_all add: MCTSAI_new_def)
qed

theorem root_children_visits_sum_witness:
  "\<not> isTerminalState walking_mcts stuck_state
   \<and> getActionsForState walking_mcts stuck_state (Some (currentPlayerId (turnInfo stuck_state))) \<noteq> []
   \<and> cfg_difficulty easy_config = EASY
   \<and> children_visits (MCTSAI_search walking_mcts half_draws stuck_state) = 100"
proof -
  have b: "\<not> (\<lambda>_. False) stuck_state"
    and c: "(\<lambda>_ _. [0::nat, 1]) stuck_state (Some (currentPlayerId (turnInfo stuck_state))) \<noteq> []"
    by simp_all
  from root_children_visits_sum [of "\<lambda>_. False" stuck_state "\<lambda>_ _. [0::nat, 1]", OF b c,
      of easy_config "\<lambda>st. Some (Fin (real (gameData st)))" "\<lambda>a st. st\<lparr>gameData := 2 * gameData st + a\<rparr>"
        "\<lambda>st rnd k. (real (gameData st), k)" half_draws]
  show ?thesis
    by (simp add: walking_mcts_def easy_config_def MCTSAI_new_def)
qed

subsection \<open>Selection prefers an unvisited child\<close>

lemma ucb_unvisited: "visits child = 0 \<Longrightarrow> getUCB1Value pv child c = Some PosInf"
  by (simp add: getUCB1Value_def)

lemma ucb_visited:
  "0 < pv \<Longrightarrow> 0 < visits child \<Longrightarrow> \<exists>r. getUCB1Value pv child c = Some (Fin r)"
  by (simp add: getUCB1Value_def Let_def)

lemma nothing_above_PosInf: "\<not> js_gt v (Some PosInf)"
  by (auto simp: js_gt_def not_less split: option.splits)

lemma PosInf_above_Fin: "js_gt (Some PosInf) (Some (Fin r))"
  by (simp add: js_gt_def less_score_def)

lemma best_loop_keeps_unvisited: "best_loop pv c cs i b (Some PosInf) = b"
  by (induction cs arbitrary: i) (simp_all add: Let_def nothing_above_PosInf)

lemma best_loop_finds_unvisited:
  assumes "0 < pv"
    and "\<exists>child \<in> set cs. visits child = 0"
  shows "i \<le> best_loop pv c cs i b (Some (Fin r))
    \<and> best_loop pv c cs i b (Some (Fin r)) < i + length cs
    \<and> visits (cs ! (best_loop pv c cs i b (Some (Fin r)) - i)) = 0"
  using assms(2)
proof (induction cs arbitrary: i b r)
  case Nil
  then show ?case by simp
next
  case (Cons child rest)
  show ?case
  proof (cases "visits child = 0")
    case True
    then have "best_loop pv c (child # rest) i b (Some (Fin r)) = i"
      by (simp add: ucb_unvisited less_score_def best_loop_keeps_unvisited)
    with True show ?thesis by simp
  next
    case False
    then obtain r' where r': "getUCB1Value pv child c = Some (Fin r')"
      using ucb_visited [OF assms(1), of child c] by auto
    from False Cons.prems have rest: "\<exists>child \<in> set rest. visits child = 0"
      by auto
    show ?thesis
    proof (cases "js_gt (Some (Fin r')) (Some (Fin r))")
      case True
      then have eq: "best_loop pv c (child # rest) i b (Some (Fin r))
          = best_loop pv c rest (Suc i) i (Some (Fin r'))"
        by (simp add: r')
      from Cons.IH [OF rest, of "Suc i" i r'] show ?thesis
        unfolding eq by (auto simp: nth_Cons' Suc_diff_Suc)
    next
      case no: False
      then have eq: "best_loop pv c (child # rest) i b (Some (Fin r))
          = best_loop pv c rest (Suc i) b (Some (Fin r))"
        by (simp add: r')
      from Cons.IH [OF rest, of "Suc i" b r] show ?thesis
        unfolding eq by (auto simp: nth_Cons' Suc_diff_Suc)
    qed
  qed
qed


text \<open>
  C7. In selection, that is on a node that has been visited, \<open>getBestChild\<close> returns an
  unvisited child whenever the node has one: the UCB1 value of an unvisited child is plus
  infinity, the value of every visited child is finite (playout values being finite), and
  the comparison keeps the first child of greatest value.
\<close>

theorem unvisited_child_is_chosen:
  assumes "\<exists>child \<in> set (children node). visits child = 0"
    and "0 < visits node"
  shows "(\<exists>best. getBestChild node c = Some best \<and> best \<in> set (children node)
            \<and> visits best = 0 \<and> getUCB1Value (visits node) best c = Some PosInf)
    \<and> (\<forall>child \<in> set (children node). 0 < visits child \<longrightarrow>
          (\<exists>r. getUCB1Value (visits node) child c = Some (Fin r)))"
proof
  from assms(1) obtain first rest where cs: "children node = first # rest"
    by (cases "children node") auto
  let ?i = "best_loop (visits node) c (children node) 0 0 (getUCB1Value (visits node) first c)"
  have idx: "getBestChildIndex node c = Some ?i"
    by (simp only: getBestChildIndex_def cs list.case)
  have "?i < length (children node) \<and> visits (children node ! ?i) = 0"
  proof (cases "visits first = 0")
    case True
    then have "?i = 0"
      by (simp only: ucb_unvisited best_loop_keeps_unvisited)
    with True cs show ?thesis by simp
  next
    case False
    then obtain r where "getUCB1Value (visits node) first c = Some (Fin r)"
      using ucb_visited [OF assms(2), of first c] by auto
    with best_loop_finds_unvisited [OF assms(2) assms(1), of 0 c 0 r] show ?thesis
      by simp
  qed
  then show "\<exists>best. getBestChild node c = Some best \<and> best \<in> set (children node)
            \<and> visits best = 0 \<and> getUCB1Value (visits node) best c = Some PosInf"
    using idx by (simp add: getBestChild_def ucb_unvisited)
next
  show "\<forall>child \<in> set (children node). 0 < visits child \<longrightarrow>
          (\<exists>r. getUCB1Value (visits node) child c = Some (Fin r))"
    using ucb_visited [OF assms(2)] by blast
qed

theorem unvisited_child_is_chosen_witness:
  "visits fresh_child = 0 \<and> 0 < visits half_explored
   \<and> getBestChild half_explored 1.414 = Some fresh_child
   \<and> getUCB1Value (visits half_explored) (children half_explored ! 0) 1.414 = Some (Fin 3)"
proof -
  have unvisited: "\<exists>child \<in> set (children half_explored). visits child = 0"
    and visited: "0 < visits half_explored"
    by (simp_all add: half_explored_def fresh_child_def)
  from unvisited_child_is_chosen [OF unvisited visited, of "1.414"]
  obtain best where "getBestChild half_explored 1.414 = Some best"
    and "best \<in> set (children half_explored)" and "visits best = 0"
    by blast
  then have "getBestChild half_explored 1.414 = Some fresh_child"
    by (auto simp: half_explored_def)
  then show ?thesis
    by (simp add: half_explored_def fresh_child_def getUCB1Value_def)
qed

end
